theory Spec2Isabelle
  imports Main "HOL-Library.AList"
begin

section \<open>The cache-aside engine of mongoose-plugin-cache\<close>

text \<open>
  The development embeds \<^verbatim>\<open>src/createCacheMethods.ts\<close> and the save hook of
  \<^verbatim>\<open>src/index.ts\<close>. The collaborators the code receives from its host are parameters
  of the model:
  \<^item> the Mongoose model (\<open>model.modelName\<close>, \<open>model.find\<close>, property reads on a
    document, \<open>doc.toObject()\<close>);
  \<^item> the Redis client, as a key-value map with the batch primitive \<open>multi(...).exec\<close>;
  \<^item> the built-ins \<open>JSON.parse\<close> and \<open>JSON.stringify\<close>;
  \<^item> the two observers \<open>onCacheMiss\<close> and \<open>onDataMiss\<close>, which are optional.

  Every effect of a call is recorded in a log, so that statements about cache traffic and
  about miss events are statements about that log.

  Boundaries of the model: a JavaScript number is carried by its string form; a plain
  object is the list of its own properties together with the members it inherits from
  \<open>Object.prototype\<close>; the members of \<open>Array.prototype\<close> and of
  \<open>Function.prototype\<close> are not modelled (the code can reach them only through an
  array cached under the key \<open>__proto__\<close>); \<open>keyBy\<close> of lodash is taken from its
  documentation; \<open>toLowerCase\<close> acts on ASCII letters; \<open>model.find\<close> returns
  documents, which are objects and so truthy; field names are plain property names (the path
  syntax of lodash, with dots and brackets, is not modelled); the Redis transport and the
  store never fail; the calls to \<open>debug\<close> are left out; one call runs alone.
\<close>

subsection \<open>JavaScript values\<close>

text \<open>
  \<open>JNum s\<close> is the number whose string form \<open>String(n)\<close> is \<open>s\<close> (so \<open>NaN\<close> is
  \<open>JNum ''NaN''\<close> and both zeros are \<open>JNum ''0''\<close>); the code never computes with a
  number, it only tests it and turns it into a key. \<open>JObjectPrototype\<close> is the object
  \<open>Object.prototype\<close> and \<open>JFunction name\<close> the built-in function of that name.
\<close>

datatype jsval =
    JUndefined
  | JNull
  | JBool bool
  | JNum string
  | JStr string
  | JArr "jsval list"
  | JObj "(string \<times> jsval) list"
  | JFunction string
  | JObjectPrototype

text \<open>\<open>!!v\<close>: the values \<open>undefined\<close>, \<open>null\<close>, \<open>false\<close>, \<open>0\<close>, \<open>NaN\<close> and \<open>""\<close> are falsy.\<close>

fun truthy :: "jsval \<Rightarrow> bool" where
  "truthy JUndefined = False"
| "truthy JNull = False"
| "truthy (JBool b) = b"
| "truthy (JNum s) = (s \<noteq> ''0'' \<and> s \<noteq> ''NaN'')"
| "truthy (JStr s) = (s \<noteq> [])"
| "truthy (JArr xs) = True"
| "truthy (JObj fs) = True"
| "truthy (JFunction name) = True"
| "truthy JObjectPrototype = True"

text \<open>\<open>a || b\<close>\<close>

definition js_or :: "jsval \<Rightarrow> jsval \<Rightarrow> jsval" where
  "js_or a b = (if truthy a then a else b)"

fun string_of_nat :: "nat \<Rightarrow> string" where
  "string_of_nat n =
     (if n < 10 then [''0123456789'' ! n]
      else string_of_nat (n div 10) @ [''0123456789'' ! (n mod 10)])"

declare string_of_nat.simps [simp del]

fun join_comma :: "string list \<Rightarrow> string" where
  "join_comma [] = []"
| "join_comma [s] = s"
| "join_comma (s # t # ts) = s @ '','' @ join_comma (t # ts)"

text \<open>
  \<open>String(v)\<close>, which is also how a value used as a property key (\<open>total[v] = ...\<close>,
  the key computed by \<open>keyBy\<close>) or inside a template string becomes a string.
\<close>

fun js_toString :: "jsval \<Rightarrow> string" where
  "js_toString JUndefined = ''undefined''"
| "js_toString JNull = ''null''"
| "js_toString (JBool b) = (if b then ''true'' else ''false'')"
| "js_toString (JNum s) = s"
| "js_toString (JStr s) = s"
| "js_toString (JArr xs) =
     join_comma (map (\<lambda>x. if x = JUndefined \<or> x = JNull then [] else js_toString x) xs)"
| "js_toString (JObj fs) = ''[object Object]''"
| "js_toString (JFunction name) = ''function '' @ name @ ''() { [native code] }''"
| "js_toString JObjectPrototype = ''[object Object]''"

subsection \<open>Inherited members\<close>

text \<open>The names of the properties of \<open>Object.prototype\<close>.\<close>

definition Object_prototype_names :: "string list" where
  "Object_prototype_names =
     [''constructor'', ''__defineGetter__'', ''__defineSetter__'', ''hasOwnProperty'',
      ''__lookupGetter__'', ''__lookupSetter__'', ''isPrototypeOf'', ''propertyIsEnumerable'',
      ''toString'', ''valueOf'', ''__proto__'', ''toLocaleString'']"

text \<open>
  A read that reaches \<open>Object.prototype\<close>: the accessor \<open>__proto__\<close> gives the prototype
  of the object the read started from, \<open>constructor\<close> is the function \<open>Object\<close>, the
  other members are functions of their own name, and any other name reads as
  \<open>undefined\<close>.
\<close>

definition Object_prototype_get :: "jsval \<Rightarrow> string \<Rightarrow> jsval" where
  "Object_prototype_get receiverPrototype k =
     (if k = ''__proto__'' then receiverPrototype
      else if k = ''constructor'' then JFunction ''Object''
      else if k \<in> set Object_prototype_names then JFunction k
      else JUndefined)"

text \<open>
  \<open>v[k]\<close> on a plain object (a record of the store, an object made by \<open>JSON.parse\<close>):
  an own property, else the member inherited from \<open>Object.prototype\<close>. The code reads
  no property of any other value.
\<close>

fun js_get :: "jsval \<Rightarrow> string \<Rightarrow> jsval" where
  "js_get (JObj fs) k = (case map_of fs k of Some v \<Rightarrow> v | None \<Rightarrow> Object_prototype_get JObjectPrototype k)"
| "js_get JObjectPrototype k = Object_prototype_get JNull k"
| "js_get v k = JUndefined"

subsection \<open>Objects used as dictionaries\<close>

text \<open>
  An object literal \<open>{}\<close> filled by assignments: the list of its own properties in
  insertion order, and its prototype, which is \<open>Object.prototype\<close> until an assignment to
  the key \<open>__proto__\<close> replaces it.
\<close>

record dict =
  own :: "(string \<times> jsval) list"
  proto :: jsval

definition empty_dict :: dict where
  "empty_dict = \<lparr>own = [], proto = JObjectPrototype\<rparr>"

fun is_object :: "jsval \<Rightarrow> bool" where
  "is_object (JObj fs) = True"
| "is_object (JArr xs) = True"
| "is_object (JFunction name) = True"
| "is_object JObjectPrototype = True"
| "is_object v = False"

text \<open>
  Whether an assignment to \<open>__proto__\<close> on an object with this prototype finds the
  accessor of \<open>Object.prototype\<close>: not when the prototype is \<open>null\<close>, and not when the
  prototype has a property \<open>__proto__\<close> of its own.
\<close>

fun accessor_reachable :: "jsval \<Rightarrow> bool" where
  "accessor_reachable JNull = False"
| "accessor_reachable (JObj fs) = (map_of fs ''__proto__'' = None)"
| "accessor_reachable v = True"

text \<open>
  \<open>total[k] = v\<close>: the value of an existing property is replaced in place and a new
  property is appended, which is \<open>AList.update\<close>. For the key \<open>__proto__\<close> the
  assignment runs the accessor of \<open>Object.prototype\<close> when it finds it: an object or
  \<open>null\<close> becomes the prototype, any other value is ignored, and no property is added.
\<close>

definition dict_assign :: "dict \<Rightarrow> string \<Rightarrow> jsval \<Rightarrow> dict" where
  "dict_assign totalObj k v =
     (if k = ''__proto__'' \<and> map_of (own totalObj) k = None \<and> accessor_reachable (proto totalObj)
      then (if is_object v \<or> v = JNull then totalObj\<lparr>proto := v\<rparr> else totalObj)
      else totalObj\<lparr>own := AList.update k v (own totalObj)\<rparr>)"

text \<open>\<open>total[k]\<close>: an own property, else what the prototype chain gives.\<close>

definition dict_get :: "dict \<Rightarrow> string \<Rightarrow> jsval" where
  "dict_get totalObj k =
     (case map_of (own totalObj) k of
        Some v \<Rightarrow> v
      | None \<Rightarrow>
          (case proto totalObj of
             JNull \<Rightarrow> JUndefined
           | JObj fs \<Rightarrow> (case map_of fs k of
                           Some v \<Rightarrow> v
                         | None \<Rightarrow> Object_prototype_get (JObj fs) k)
           | p \<Rightarrow> Object_prototype_get p k))"

definition is_digit :: "char \<Rightarrow> bool" where
  "is_digit c = (c \<in> set ''0123456789'')"

definition nat_of_digits :: "string \<Rightarrow> nat" where
  "nat_of_digits s = foldl (\<lambda>n c. 10 * n + (of_char c - 48)) 0 s"

text \<open>An array index is the canonical decimal form of an integer below \<open>2^32 - 1\<close>.\<close>

definition is_array_index :: "string \<Rightarrow> bool" where
  "is_array_index s =
     (s \<noteq> [] \<and> list_all is_digit s \<and> (hd s \<noteq> CHR ''0'' \<or> length s = 1)
      \<and> nat_of_digits s < 2 ^ 32 - 1)"

text \<open>
  \<open>Object.entries(obj)\<close> (and the order in which a spread copies), on the own properties:
  array-index keys in ascending numeric order, then the other keys in insertion order.
\<close>

definition Object_entries :: "(string \<times> 'v) list \<Rightarrow> (string \<times> 'v) list" where
  "Object_entries obj =
     sort_key (\<lambda>p. nat_of_digits (fst p)) (filter (\<lambda>p. is_array_index (fst p)) obj)
     @ filter (\<lambda>p. \<not> is_array_index (fst p)) obj"

text \<open>
  \<open>{...a, ...b}\<close>: a new object with the prototype \<open>Object.prototype\<close> that gets the own
  properties of \<open>a\<close> and then those of \<open>b\<close>, each defined as an own property.
\<close>

definition obj_assign :: "(string \<times> 'v) list \<Rightarrow> (string \<times> 'v) list \<Rightarrow> (string \<times> 'v) list" where
  "obj_assign target source =
     foldl (\<lambda>acc p. AList.update (fst p) (snd p) acc) target (Object_entries source)"

definition spread2 :: "dict \<Rightarrow> dict \<Rightarrow> dict" where
  "spread2 a b = \<lparr>own = obj_assign (obj_assign [] (own a)) (own b), proto = JObjectPrototype\<rparr>"

text \<open>
  lodash \<open>keyBy(collection, iteratee)\<close>: an object with one property per key
  \<open>String(iteratee(value))\<close>, whose value is the last element that generates the key; the
  properties are in the order in which their keys first occur.
\<close>

definition keyBy :: "'a list \<Rightarrow> ('a \<Rightarrow> jsval) \<Rightarrow> (string \<times> 'a) list" where
  "keyBy collection iteratee =
     foldl (\<lambda>result value. AList.update (js_toString (iteratee value)) value result) [] collection"

subsection \<open>The Redis client\<close>

datatype redis_op = Get string | Set string string | Del string

datatype redis_reply = Nil | Bulk string | Status string | Integer nat

datatype event =
    OnCacheMiss string string
  | OnDataMiss string string
  | RedisMulti "redis_op list"
  | ModelFind string "string list"

record world =
  redis_db :: "string \<rightharpoonup> string"
  log :: "event list"

fun exec_op :: "redis_op \<Rightarrow> (string \<rightharpoonup> string) \<Rightarrow> redis_reply \<times> (string \<rightharpoonup> string)" where
  "exec_op (Get k) db = ((case db k of None \<Rightarrow> Nil | Some s \<Rightarrow> Bulk s), db)"
| "exec_op (Set k v) db = (Status ''OK'', db(k \<mapsto> v))"
| "exec_op (Del k) db = (Integer (if db k = None then 0 else 1), db(k := None))"

fun exec_ops :: "redis_op list \<Rightarrow> (string \<rightharpoonup> string) \<Rightarrow> redis_reply list \<times> (string \<rightharpoonup> string)" where
  "exec_ops [] db = ([], db)"
| "exec_ops (operation # ops) db =
     (let (r, db1) = exec_op operation db;
          (rs, db2) = exec_ops ops db1
      in (r # rs, db2))"

text \<open>\<open>redis.multi(batch).execAsync()\<close>: one round trip, one reply per operation.\<close>

definition redis_multi :: "redis_op list \<Rightarrow> world \<Rightarrow> redis_reply list \<times> world" where
  "redis_multi batch w =
     (let (rs, db) = exec_ops batch (redis_db w)
      in (rs, w\<lparr>redis_db := db, log := log w @ [RedisMulti batch]\<rparr>))"

text \<open>A reply in a condition (\<open>if (doc)\<close>) and as the argument of \<open>JSON.parse\<close>.\<close>

fun reply_truthy :: "redis_reply \<Rightarrow> bool" where
  "reply_truthy Nil = False"
| "reply_truthy (Bulk s) = (s \<noteq> [])"
| "reply_truthy (Status s) = (s \<noteq> [])"
| "reply_truthy (Integer n) = (n \<noteq> 0)"

fun reply_text :: "redis_reply \<Rightarrow> string" where
  "reply_text Nil = ''null''"
| "reply_text (Bulk s) = s"
| "reply_text (Status s) = s"
| "reply_text (Integer n) = string_of_nat n"

subsection \<open>The context of \<open>createCacheMethods\<close>\<close>

text \<open>
  The Mongoose model: its name, the documents of its collection, whether a document's
  field equals a key for the store's \<open>$in\<close> query, the property read \<open>doc[field]\<close>
  and \<open>doc.toObject()\<close>.
\<close>

record 'd Model =
  modelName :: string
  documents :: "'d list"
  fieldEq :: "'d \<Rightarrow> string \<Rightarrow> string \<Rightarrow> bool"
  getProp :: "'d \<Rightarrow> string \<Rightarrow> jsval"
  toObject :: "'d \<Rightarrow> (string \<times> jsval) list"

record 'd Context =
  enable :: bool
  additionalCacheKeys :: "string list"
  model :: "'d Model"
  onCacheMiss :: bool
  onDataMiss :: bool
  JSON_parse :: "string \<Rightarrow> jsval option"
  JSON_stringify :: "jsval \<Rightarrow> string"

text \<open>
  What a call can throw: the \<open>SyntaxError\<close> of \<open>JSON.parse\<close>, and the \<open>TypeError\<close>
  of calling \<open>toObject\<close> on a value that has no such method.
\<close>

datatype error = SyntaxError | TypeError

definition toLowerCase :: "string \<Rightarrow> string" where
  "toLowerCase s =
     map (\<lambda>c. case map_of (zip ''ABCDEFGHIJKLMNOPQRSTUVWXYZ'' ''abcdefghijklmnopqrstuvwxyz'') c of
                Some l \<Rightarrow> l
              | None \<Rightarrow> c) s"

definition withCachePrefix :: "'d Context \<Rightarrow> string \<Rightarrow> string" where
  "withCachePrefix ctx key = toLowerCase (modelName (model ctx)) @ '':'' @ key"

definition onBatchCacheMiss :: "'d Context \<Rightarrow> string list \<Rightarrow> world \<Rightarrow> world" where
  "onBatchCacheMiss ctx keys w =
     foldl (\<lambda>w key. if onCacheMiss ctx
                     then w\<lparr>log := log w @ [OnCacheMiss (modelName (model ctx)) key]\<rparr>
                     else w) w keys"

definition onBatchDataMiss :: "'d Context \<Rightarrow> string list \<Rightarrow> world \<Rightarrow> world" where
  "onBatchDataMiss ctx keys w =
     foldl (\<lambda>w key. if onDataMiss ctx
                     then w\<lparr>log := log w @ [OnDataMiss (modelName (model ctx)) key]\<rparr>
                     else w) w keys"

text \<open>
  \<open>model.find({ [field]: { $in: keys } })\<close>: the documents of the collection whose
  field equals one of the keys, in the order of the collection.
\<close>

definition find_docs :: "'d Context \<Rightarrow> string \<Rightarrow> string list \<Rightarrow> 'd list" where
  "find_docs ctx field keys =
     filter (\<lambda>d. list_ex (fieldEq (model ctx) d field) keys) (documents (model ctx))"

definition model_find :: "'d Context \<Rightarrow> string \<Rightarrow> string list \<Rightarrow> world \<Rightarrow> 'd list \<times> world" where
  "model_find ctx field keys w = (find_docs ctx field keys, w\<lparr>log := log w @ [ModelFind field keys]\<rparr>)"

subsection \<open>\<open>getManyBy\<close>\<close>

text \<open>
  The body of \<open>keys.map(key => ...)\<close> in \<open>getManyBy\<close>, with its data-miss effect.
  \<open>valueByKey[key]\<close> is the document filed under the key; without one, a key that names
  a member of \<open>Object.prototype\<close> reads that member, which is truthy and has no method
  \<open>toObject\<close>, so that \<open>value.toObject()\<close> throws; any other key reads \<open>undefined\<close>.
\<close>

fun resolve_keys :: "'d Context \<Rightarrow> (string \<times> 'd) list \<Rightarrow> string list \<Rightarrow> world
    \<Rightarrow> (error + jsval list) \<times> world" where
  "resolve_keys ctx valueByKey [] w = (Inr [], w)"
| "resolve_keys ctx valueByKey (key # keys) w =
     (case map_of valueByKey key of
        None \<Rightarrow>
          if key \<in> set Object_prototype_names then (Inl TypeError, w)
          else
            (let w1 = onBatchDataMiss ctx [key] w;
                 (rest, w2) = resolve_keys ctx valueByKey keys w1
             in (case rest of Inl e \<Rightarrow> (Inl e, w2) | Inr rs \<Rightarrow> (Inr (JNull # rs), w2)))
      | Some value \<Rightarrow>
          (let (rest, w2) = resolve_keys ctx valueByKey keys w
           in (case rest of
                 Inl e \<Rightarrow> (Inl e, w2)
               | Inr rs \<Rightarrow> (Inr (JObj (toObject (model ctx) value) # rs), w2))))"

definition getManyBy :: "'d Context \<Rightarrow> string \<Rightarrow> string list \<Rightarrow> world
    \<Rightarrow> (error + jsval list) \<times> world" where
  "getManyBy ctx queryKey keys w =
     (let keyLookup = (if queryKey = ''id'' then ''_id'' else queryKey);
          (docs, w1) = model_find ctx keyLookup keys w;
          valueByKey = keyBy docs (\<lambda>d. getProp (model ctx) d queryKey)
      in resolve_keys ctx valueByKey keys w1)"

subsection \<open>\<open>cacheSetMany\<close>, \<open>cacheClearMany\<close>\<close>

definition set_batch :: "'d Context \<Rightarrow> (string \<times> jsval) list \<Rightarrow> redis_op list" where
  "set_batch ctx entries =
     foldl (\<lambda>operations entry.
              if \<not> truthy (snd entry) then operations
              else operations @ [Set (withCachePrefix ctx (fst entry)) (JSON_stringify ctx (snd entry))])
           [] entries"

definition cacheSetMany :: "'d Context \<Rightarrow> (string \<times> jsval) list \<Rightarrow> world \<Rightarrow> world" where
  "cacheSetMany ctx entries w =
     (if \<not> enable ctx then w
      else let batch = set_batch ctx entries
           in if length batch = 0 then w else snd (redis_multi batch w))"


definition cacheClearMany :: "'d Context \<Rightarrow> string list \<Rightarrow> world \<Rightarrow> world" where
  "cacheClearMany ctx keys w =
     (let batch = map (\<lambda>key. Del (withCachePrefix ctx key)) keys
      in snd (redis_multi batch w))"

definition cacheClear :: "'d Context \<Rightarrow> string \<Rightarrow> world \<Rightarrow> world" where
  "cacheClear ctx key w = cacheClearMany ctx [key] w"

subsection \<open>\<open>cacheGetManyBy\<close>\<close>

text \<open>
  The reduction that builds \<open>cachedKeyValue\<close>; \<open>JSON.parse\<close> throws on a string that
  is not JSON, which ends the call.
\<close>

fun cached_reduce :: "'d Context \<Rightarrow> (string \<times> redis_reply) list \<Rightarrow> dict \<Rightarrow> error + dict" where
  "cached_reduce ctx [] totalObj = Inr totalObj"
| "cached_reduce ctx ((key, doc) # rest) totalObj =
     (if reply_truthy doc
      then (case JSON_parse ctx (reply_text doc) of
              None \<Rightarrow> Inl SyntaxError
            | Some v \<Rightarrow> cached_reduce ctx rest (dict_assign totalObj key v))
      else cached_reduce ctx rest totalObj)"

text \<open>The reduction that builds \<open>storedKeyValue\<close> from \<open>storedDataEntries\<close>.\<close>

definition stored_reduce :: "'d Context \<Rightarrow> (string \<times> jsval) list \<Rightarrow> dict" where
  "stored_reduce ctx storedDataEntries =
     foldl (\<lambda>totalObj entry.
              if truthy (snd entry)
              then foldl (\<lambda>totalObj additionalCacheKey.
                            dict_assign totalObj (js_toString (js_get (snd entry) additionalCacheKey)) (snd entry))
                         (dict_assign totalObj (fst entry) (snd entry))
                         (additionalCacheKeys ctx)
              else totalObj)
           empty_dict storedDataEntries"

definition cacheGetManyBy :: "'d Context \<Rightarrow> string \<Rightarrow> string list \<Rightarrow> world
    \<Rightarrow> (error + jsval list) \<times> world" where
  "cacheGetManyBy ctx cacheKey keys w =
     (if \<not> enable ctx
      then getManyBy ctx cacheKey keys w
      else
        let batchGet = map (\<lambda>key. Get (withCachePrefix ctx key)) keys;
            (cachedData, w1) = redis_multi batchGet w
        in case cached_reduce ctx (zip keys cachedData) empty_dict of
             Inl e \<Rightarrow> (Inl e, w1)
           | Inr cachedKeyValue \<Rightarrow>
               let missedKeysFromCache = filter (\<lambda>key. \<not> truthy (dict_get cachedKeyValue key)) keys
               in if length missedKeysFromCache > 0
                  then
                    let w2 = onBatchCacheMiss ctx missedKeysFromCache w1;
                        (stored, w3) = getManyBy ctx cacheKey missedKeysFromCache w2
                    in case stored of
                         Inl e \<Rightarrow> (Inl e, w3)
                       | Inr storedData \<Rightarrow>
                           let storedDataEntries =
                                 Object_entries (keyBy (filter truthy storedData) (\<lambda>item. js_get item cacheKey));
                               storedKeyValue = stored_reduce ctx storedDataEntries;
                               w4 = cacheSetMany ctx (Object_entries (own storedKeyValue)) w3;
                               responseKeyValue = spread2 cachedKeyValue storedKeyValue
                           in (Inr (map (\<lambda>key. js_or (dict_get responseKeyValue key) JNull) keys), w4)
                  else (Inr (map (\<lambda>key. js_or (dict_get cachedKeyValue key) JNull) keys), w1))"

subsection \<open>The save hook of the plugin\<close>


subsection \<open>Notions used to state the properties\<close>

text \<open>The string cached for a key, and whether \<open>JSON.parse\<close> throws on it.\<close>

definition cachedString :: "'d Context \<Rightarrow> world \<Rightarrow> string \<Rightarrow> string option" where
  "cachedString ctx w key = redis_db w (withCachePrefix ctx key)"

definition malformed :: "'d Context \<Rightarrow> world \<Rightarrow> string \<Rightarrow> bool" where
  "malformed ctx w key =
     (case cachedString ctx w key of
        None \<Rightarrow> False
      | Some s \<Rightarrow> s \<noteq> [] \<and> JSON_parse ctx s = None)"

text \<open>A cache hit: the cached string is not empty and parses to a truthy value.\<close>

definition cacheHit :: "'d Context \<Rightarrow> world \<Rightarrow> string \<Rightarrow> jsval option" where
  "cacheHit ctx w key =
     (case cachedString ctx w key of
        None \<Rightarrow> None
      | Some s \<Rightarrow>
          if s = [] then None
          else (case JSON_parse ctx s of
                  None \<Rightarrow> None
                | Some v \<Rightarrow> if truthy v then Some v else None))"

definition missedKeys :: "'d Context \<Rightarrow> world \<Rightarrow> string list \<Rightarrow> string list" where
  "missedKeys ctx w keys = filter (\<lambda>key. cacheHit ctx w key = None) keys"

text \<open>
  \<open>valueByKey\<close>, and the result list of \<open>getManyBy\<close> when it returns one: the
  projection of the document filed under the key, or \<open>null\<close>.
\<close>

definition valueByKey_of :: "'d Context \<Rightarrow> string \<Rightarrow> string list \<Rightarrow> (string \<times> 'd) list" where
  "valueByKey_of ctx queryKey keys =
     keyBy (find_docs ctx (if queryKey = ''id'' then ''_id'' else queryKey) keys)
           (\<lambda>d. getProp (model ctx) d queryKey)"

definition resolved :: "'d Context \<Rightarrow> string \<Rightarrow> string list \<Rightarrow> jsval list" where
  "resolved ctx queryKey keys =
     map (\<lambda>key. case map_of (valueByKey_of ctx queryKey keys) key of
                   None \<Rightarrow> JNull
                 | Some d \<Rightarrow> JObj (toObject (model ctx) d)) keys"

text \<open>
  A key on which \<open>getManyBy\<close> throws: it names a member of \<open>Object.prototype\<close> and no
  document is filed under it.
\<close>

definition unresolvable :: "'d Context \<Rightarrow> string \<Rightarrow> string list \<Rightarrow> string \<Rightarrow> bool" where
  "unresolvable ctx queryKey keys key =
     (key \<in> set Object_prototype_names \<and> map_of (valueByKey_of ctx queryKey keys) key = None)"



text \<open>
  \<open>storedKeyValue\<close> for a list of missed keys: the own properties of the object that
  \<open>stored_reduce\<close> builds from the records fetched for them.
\<close>

definition storedKeyValue_of :: "'d Context \<Rightarrow> string \<Rightarrow> string list \<Rightarrow> (string \<times> jsval) list" where
  "storedKeyValue_of ctx cacheKey missed =
     own (stored_reduce ctx
       (Object_entries (keyBy (filter truthy (resolved ctx cacheKey missed)) (\<lambda>item. js_get item cacheKey))))"

text \<open>The keys under which \<open>stored_reduce\<close> files a record.\<close>

definition addressing_keys :: "'d Context \<Rightarrow> string \<Rightarrow> jsval \<Rightarrow> string set" where
  "addressing_keys ctx cacheKey record =
     insert (js_toString (js_get record cacheKey))
       ((\<lambda>a. js_toString (js_get record a)) ` set (additionalCacheKeys ctx))"

text \<open>A sequence of assignments \<open>obj[k] = v\<close>, and the assignments \<open>stored_reduce\<close> makes.\<close>

definition assign_all :: "(string \<times> 'v) list \<Rightarrow> (string \<times> 'v) list \<Rightarrow> (string \<times> 'v) list" where
  "assign_all acc ps = foldl (\<lambda>acc p. AList.update (fst p) (snd p) acc) acc ps"

definition assign_dict :: "dict \<Rightarrow> (string \<times> jsval) list \<Rightarrow> dict" where
  "assign_dict d ps = foldl (\<lambda>d p. dict_assign d (fst p) (snd p)) d ps"

definition staging_list :: "'d Context \<Rightarrow> (string \<times> jsval) list \<Rightarrow> (string \<times> jsval) list" where
  "staging_list ctx es =
     concat (map (\<lambda>e. if truthy (snd e)
                       then (fst e, snd e) # map (\<lambda>a. (js_toString (js_get (snd e) a), snd e)) (additionalCacheKeys ctx)
                       else []) es)"

text \<open>The reply of the batched read for a key.\<close>

definition reply_of :: "'d Context \<Rightarrow> world \<Rightarrow> string \<Rightarrow> redis_reply" where
  "reply_of ctx w key = (case redis_db w (withCachePrefix ctx key) of None \<Rightarrow> Nil | Some s \<Rightarrow> Bulk s)"

text \<open>
  The merge of \<open>cacheGetManyBy\<close> for one key: a record staged under the key, else the
  cache hit, else \<open>null\<close>.
\<close>

definition response_for :: "'d Context \<Rightarrow> string \<Rightarrow> world \<Rightarrow> string list \<Rightarrow> string \<Rightarrow> jsval" where
  "response_for ctx cacheKey w keys key =
     (case map_of (storedKeyValue_of ctx cacheKey (missedKeys ctx w keys)) key of
        Some record \<Rightarrow> record
      | None \<Rightarrow> (case cacheHit ctx w key of Some v \<Rightarrow> v | None \<Rightarrow> JNull))"

text \<open>The batched write of the cache fill.\<close>

definition fill_batch :: "'d Context \<Rightarrow> string \<Rightarrow> world \<Rightarrow> string list \<Rightarrow> redis_op list" where
  "fill_batch ctx cacheKey w keys =
     set_batch ctx (Object_entries (storedKeyValue_of ctx cacheKey (missedKeys ctx w keys)))"

text \<open>The same context over a collection that lists its documents in another order.\<close>

definition reorder_documents :: "'d Context \<Rightarrow> 'd list \<Rightarrow> 'd Context" where
  "reorder_documents ctx docs = ctx\<lparr>model := (model ctx)\<lparr>documents := docs\<rparr>\<rparr>"


text \<open>The events a call appended to the log.\<close>

definition new_events :: "world \<Rightarrow> world \<Rightarrow> event list" where
  "new_events w w' = drop (length (log w)) (log w')"

subsection \<open>A concrete model in the style of the repository's tests\<close>

type_synonym plain_doc = "(string \<times> jsval) list"

text \<open>Documents that are their own plain projection, matched on string-valued fields.\<close>

definition plainModel :: "string \<Rightarrow> plain_doc list \<Rightarrow> plain_doc Model" where
  "plainModel name docs =
     \<lparr>modelName = name,
      documents = docs,
      fieldEq = (\<lambda>d field key. map_of d field = Some (JStr key)),
      getProp = (\<lambda>d field. js_get (JObj d) field),
      toObject = (\<lambda>d. d)\<rparr>"

definition entry1 :: plain_doc where
  "entry1 = [(''_id'', JStr ''id1''), (''slug'', JStr ''slug1''), (''title'', JStr ''Breaking Bad'')]"

definition entry3 :: plain_doc where
  "entry3 = [(''_id'', JStr ''id3''), (''slug'', JStr ''slug3''), (''title'', JStr ''Prison Break'')]"

definition entry5 :: plain_doc where
  "entry5 = [(''_id'', JStr ''id5''), (''title'', JStr ''Rush'')]"

definition payload1 :: string where
  \<open>payload1 = ''{"_id":"id1","slug":"slug1","title":"Breaking Bad"}''\<close>

definition payload3 :: string where
  \<open>payload3 = ''{"_id":"id3","slug":"slug3","title":"Prison Break"}''\<close>

definition payload5 :: string where
  \<open>payload5 = ''{"_id":"id5","title":"Rush"}''\<close>

definition stale3 :: plain_doc where
  "stale3 = [(''_id'', JStr ''id3''), (''slug'', JStr ''slug3''), (''title'', JStr ''Old'')]"

definition payloadStale3 :: string where
  \<open>payloadStale3 = ''{"_id":"id3","slug":"slug3","title":"Old"}''\<close>

text \<open>A document whose slug is the string \<open>__proto__\<close>.\<close>

definition entryP :: plain_doc where
  "entryP = [(''_id'', JStr ''idP''), (''slug'', JStr ''__proto__'')]"

definition payloadP :: string where
  \<open>payloadP = ''{"_id":"idP","slug":"__proto__"}''\<close>

text \<open>
  A document with a field whose value is \<open>undefined\<close>: \<open>JSON.stringify\<close> leaves the
  field out, so that \<open>JSON.parse\<close> gives back an object without it.
\<close>

definition entry7 :: plain_doc where
  "entry7 = [(''_id'', JStr ''id7''), (''note'', JUndefined)]"

definition parsed7 :: plain_doc where
  "parsed7 = [(''_id'', JStr ''id7'')]"

definition payload7 :: string where
  \<open>payload7 = ''{"_id":"id7"}''\<close>

text \<open>The projections of two documents that leave out the field \<open>_id\<close>.\<close>

definition titleA :: plain_doc where
  "titleA = [(''title'', JStr ''A'')]"

definition titleU :: plain_doc where
  "titleU = [(''title'', JStr ''U'')]"

definition payloadA :: string where
  \<open>payloadA = ''{"title":"A"}''\<close>

definition payloadU :: string where
  \<open>payloadU = ''{"title":"U"}''\<close>

text \<open>\<open>JSON.stringify\<close> and \<open>JSON.parse\<close> on the strings and values of the examples.\<close>

definition sample_stringify :: "jsval \<Rightarrow> string" where
  "sample_stringify v =
     (if v = JObj entry1 then payload1
      else if v = JObj entry3 then payload3
      else if v = JObj entry5 then payload5
      else if v = JObj stale3 then payloadStale3
      else if v = JObj entryP then payloadP
      else if v = JObj entry7 then payload7
      else if v = JObj parsed7 then payload7
      else if v = JObj titleA then payloadA
      else if v = JObj titleU then payloadU
      else if v = JNum ''0'' then ''0''
      else if v = JBool False then ''false''
      else ''null'')"

definition sample_parse :: "string \<Rightarrow> jsval option" where
  "sample_parse s =
     (if s = payload1 then Some (JObj entry1)
      else if s = payload3 then Some (JObj entry3)
      else if s = payload5 then Some (JObj entry5)
      else if s = payloadStale3 then Some (JObj stale3)
      else if s = payloadP then Some (JObj entryP)
      else if s = payload7 then Some (JObj parsed7)
      else if s = payloadA then Some (JObj titleA)
      else if s = payloadU then Some (JObj titleU)
      else if s = ''0'' then Some (JNum ''0'')
      else if s = ''false'' then Some (JBool False)
      else if s = ''null'' then Some JNull
      else None)"

definition sampleContext :: "bool \<Rightarrow> string list \<Rightarrow> plain_doc Context" where
  "sampleContext en additional =
     \<lparr>enable = en,
      additionalCacheKeys = additional,
      model = plainModel ''Entry'' [entry1, entry3, entry5],
      onCacheMiss = True,
      onDataMiss = True,
      JSON_parse = sample_parse,
      JSON_stringify = sample_stringify\<rparr>"

text \<open>
  A model whose projection leaves out the field \<open>_id\<close>, over a collection with a
  document whose \<open>_id\<close> is the string \<open>undefined\<close>.
\<close>

definition projectingContext :: "plain_doc Context" where
  "projectingContext =
     \<lparr>enable = True,
      additionalCacheKeys = [],
      model = \<lparr>modelName = ''Entry'',
               documents = [(''_id'', JStr ''a'') # titleA, (''_id'', JStr ''undefined'') # titleU],
               fieldEq = (\<lambda>d field key. map_of d field = Some (JStr key)),
               getProp = (\<lambda>d field. js_get (JObj d) field),
               toObject = (\<lambda>d. filter (\<lambda>p. fst p \<noteq> ''_id'') d)\<rparr>,
      onCacheMiss = True,
      onDataMiss = True,
      JSON_parse = sample_parse,
      JSON_stringify = sample_stringify\<rparr>"

definition emptyWorld :: world where
  "emptyWorld = \<lparr>redis_db = Map.empty, log = []\<rparr>"

definition worldWith :: "(string \<times> string) list \<Rightarrow> world" where
  "worldWith cached = \<lparr>redis_db = map_of cached, log = []\<rparr>"

section \<open>Auxiliary facts\<close>

subsection \<open>Redis batches and observers\<close>

lemma exec_ops_gets:
  "exec_ops (map (\<lambda>k. Get (f k)) keys) db =
     (map (\<lambda>k. case db (f k) of None \<Rightarrow> Nil | Some s \<Rightarrow> Bulk s) keys, db)"
  by (induction keys) simp_all

lemma exec_ops_dels:
  "snd (exec_ops (map (\<lambda>k. Del (f k)) keys) db) = (\<lambda>k. if k \<in> f ` set keys then None else db k)"
proof (induction keys arbitrary: db)
  case Nil
  then show ?case by simp
next
  case (Cons a keys)
  then show ?case by (auto simp: fun_eq_iff case_prod_beta)
qed

lemma redis_multi_log: "log (snd (redis_multi batch w)) = log w @ [RedisMulti batch]"
  by (simp add: redis_multi_def split: prod.splits)

lemma redis_multi_db: "redis_db (snd (redis_multi batch w)) = snd (exec_ops batch (redis_db w))"
  by (simp add: redis_multi_def split: prod.splits)

lemma redis_multi_gets:
  "redis_multi (map (\<lambda>k. Get (f k)) keys) w =
     (map (\<lambda>k. case redis_db w (f k) of None \<Rightarrow> Nil | Some s \<Rightarrow> Bulk s) keys,
      w\<lparr>log := log w @ [RedisMulti (map (\<lambda>k. Get (f k)) keys)]\<rparr>)"
  by (simp add: redis_multi_def exec_ops_gets)

lemma onBatchDataMiss_log:
  "log (onBatchDataMiss ctx keys w) =
     log w @ (if onDataMiss ctx then map (OnDataMiss (modelName (model ctx))) keys else [])"
  unfolding onBatchDataMiss_def
  by (induction keys arbitrary: w) simp_all

lemma onBatchDataMiss_db: "redis_db (onBatchDataMiss ctx keys w) = redis_db w"
  unfolding onBatchDataMiss_def
  by (induction keys arbitrary: w) simp_all

lemma onBatchCacheMiss_log:
  "log (onBatchCacheMiss ctx keys w) =
     log w @ (if onCacheMiss ctx then map (OnCacheMiss (modelName (model ctx))) keys else [])"
  unfolding onBatchCacheMiss_def
  by (induction keys arbitrary: w) simp_all

lemma onBatchCacheMiss_db: "redis_db (onBatchCacheMiss ctx keys w) = redis_db w"
  unfolding onBatchCacheMiss_def
  by (induction keys arbitrary: w) simp_all

lemma proto_is_inherited [simp]: "''__proto__'' \<in> set Object_prototype_names"
  by (simp add: Object_prototype_names_def)

lemma Object_prototype_get_ordinary [simp]:
  "k \<notin> set Object_prototype_names \<Longrightarrow> Object_prototype_get p k = JUndefined"
  by (auto simp: Object_prototype_get_def Object_prototype_names_def)

lemma resolve_keys_db: "redis_db (snd (resolve_keys ctx vbk keys w)) = redis_db w"
  by (induction keys arbitrary: w)
    (simp_all add: onBatchDataMiss_db case_prod_beta Let_def split: option.splits sum.splits)

lemma resolve_keys_fst:
  "fst (resolve_keys ctx vbk keys w) =
     (if \<exists>k\<in>set keys. k \<in> set Object_prototype_names \<and> map_of vbk k = None then Inl TypeError
      else Inr (map (\<lambda>k. case map_of vbk k of None \<Rightarrow> JNull | Some d \<Rightarrow> JObj (toObject (model ctx) d)) keys))"
proof (induction keys arbitrary: w)
  case Nil
  then show ?case by simp
next
  case (Cons a keys)
  show ?case
  proof (cases "map_of vbk a")
    case None
    then show ?thesis
      by (simp add: Cons.IH case_prod_beta Let_def split: sum.splits)
  next
    case (Some d)
    then show ?thesis
      by (simp add: Cons.IH case_prod_beta Let_def split: sum.splits)
  qed
qed

lemma resolve_keys_log:
  "log (snd (resolve_keys ctx vbk keys w)) =
     log w @ (if onDataMiss ctx
              then map (OnDataMiss (modelName (model ctx)))
                     (filter (\<lambda>k. map_of vbk k = None)
                        (takeWhile (\<lambda>k. \<not> (k \<in> set Object_prototype_names \<and> map_of vbk k = None)) keys))
              else [])"
proof (induction keys arbitrary: w)
  case Nil
  then show ?case by simp
next
  case (Cons a keys)
  show ?case
  proof (cases "map_of vbk a")
    case None
    then show ?thesis
      by (simp add: Cons.IH onBatchDataMiss_log case_prod_beta Let_def split: sum.splits)
  next
    case (Some d)
    then show ?thesis
      by (simp add: Cons.IH case_prod_beta Let_def split: sum.splits)
  qed
qed

subsection \<open>Dictionaries\<close>
lemma map_of_assign_all: "map_of (assign_all acc ps) = map_of acc ++ map_of (rev ps)"
  unfolding assign_all_def
proof (induction ps arbitrary: acc)
  case Nil
  then show ?case by simp
next
  case (Cons p ps)
  then show ?case
    by (cases p) (auto simp: update_conv' fun_eq_iff map_add_def split: option.splits)
qed

lemma distinct_assign_all: "distinct (map fst acc) \<Longrightarrow> distinct (map fst (assign_all acc ps))"
  unfolding assign_all_def
  by (induction ps arbitrary: acc) (simp_all add: distinct_update)

lemma assign_all_Some: 
  assumes "map_of (assign_all [] ps) k = Some v" shows "(k, v) \<in> set ps"
proof -
  from assms have "map_of (rev ps) k = Some v" by (simp add: map_of_assign_all)
  then have "(k, v) \<in> set (rev ps)" by (rule map_of_SomeD)
  then show ?thesis by simp
qed

lemma assign_all_dom:
  "(map_of (assign_all [] ps) k = None) = (k \<notin> fst ` set ps)"
  by (simp add: map_of_assign_all map_of_eq_None_iff)

lemma keyBy_assign: "keyBy xs g = assign_all [] (map (\<lambda>x. (js_toString (g x), x)) xs)"
  by (simp add: keyBy_def assign_all_def foldl_map)

lemma keyBy_Some: "map_of (keyBy xs g) k = Some x \<Longrightarrow> x \<in> set xs \<and> js_toString (g x) = k"
  by (auto simp: keyBy_assign dest!: assign_all_Some)

lemma keyBy_None: "(map_of (keyBy xs g) k = None) = (k \<notin> (\<lambda>x. js_toString (g x)) ` set xs)"
  by (simp add: keyBy_assign assign_all_dom image_image)

lemma keyBy_distinct: "distinct (map fst (keyBy xs g))"
  by (simp add: keyBy_assign distinct_assign_all)

lemma set_Object_entries: "set (Object_entries obj) = set obj"
  by (auto simp: Object_entries_def)

lemma distinct_Object_entries:
  assumes "distinct (map fst obj)" shows "distinct (map fst (Object_entries obj))"
proof -
  from assms have d: "distinct obj" and i: "inj_on fst (set obj)"
    by (simp_all add: distinct_map)
  have "distinct (Object_entries obj)"
    using d by (auto simp: Object_entries_def)
  moreover have "inj_on fst (set (Object_entries obj))"
    using i by (simp add: set_Object_entries)
  ultimately show ?thesis by (simp add: distinct_map)
qed

lemma map_of_Object_entries:
  assumes "distinct (map fst obj)" shows "map_of (Object_entries obj) = map_of obj"
  using assms distinct_Object_entries [OF assms]
  by (simp add: map_of_inject_set set_Object_entries)

lemma map_of_rev_distinct: "distinct (map fst xs) \<Longrightarrow> map_of (rev xs) = map_of xs"
  by (simp add: map_of_inject_set rev_map [symmetric])

lemma obj_assign_assign: "obj_assign target source = assign_all target (Object_entries source)"
  by (simp add: obj_assign_def assign_all_def)

lemma map_of_spread2:
  assumes "distinct (map fst (own a))" "distinct (map fst (own b))"
  shows "map_of (own (spread2 a b)) = map_of (own a) ++ map_of (own b)"
  using assms
  by (simp add: spread2_def obj_assign_assign map_of_assign_all map_of_rev_distinct
      distinct_Object_entries map_of_Object_entries)

lemma proto_spread2 [simp]: "proto (spread2 a b) = JObjectPrototype"
  by (simp add: spread2_def)

lemma dict_get_ordinary:
  assumes "proto d = JObjectPrototype" and "k \<notin> set Object_prototype_names"
  shows "dict_get d k = (case map_of (own d) k of Some v \<Rightarrow> v | None \<Rightarrow> JUndefined)"
  using assms by (simp add: dict_get_def split: option.splits)

lemma dict_assign_ordinary:
  "k \<noteq> ''__proto__'' \<Longrightarrow> dict_assign d k v = d\<lparr>own := AList.update k v (own d)\<rparr>"
  by (simp add: dict_assign_def)

lemma own_dict_assign:
  "k \<noteq> ''__proto__'' \<Longrightarrow> map_of (own (dict_assign d k0 v)) k = ((map_of (own d))(k0 \<mapsto> v)) k"
  by (simp add: dict_assign_def update_conv')

lemma dict_assign_member:
  "map_of (own (dict_assign d k0 v)) k = Some x \<Longrightarrow> map_of (own d) k = Some x \<or> (k = k0 \<and> x = v)"
  by (auto simp: dict_assign_def update_conv' split: if_splits)

lemma distinct_dict_assign:
  "distinct (map fst (own d)) \<Longrightarrow> distinct (map fst (own (dict_assign d k v)))"
  by (simp add: dict_assign_def distinct_update)

lemma own_assign_dict:
  assumes "k \<noteq> ''__proto__''"
  shows "map_of (own (assign_dict d ps)) k = (map_of (own d) ++ map_of (rev ps)) k"
  unfolding assign_dict_def
proof (induction ps arbitrary: d)
  case Nil
  then show ?case by simp
next
  case (Cons p ps)
  show ?case
    using assms
    by (cases p) (simp add: Cons.IH own_dict_assign map_add_def split: option.splits)
qed

lemma assign_dict_member:
  "map_of (own (assign_dict d ps)) k = Some v \<Longrightarrow> map_of (own d) k = Some v \<or> (k, v) \<in> set ps"
  unfolding assign_dict_def
proof (induction ps arbitrary: d)
  case Nil
  then show ?case by simp
next
  case (Cons p ps)
  from Cons.IH [of "dict_assign d (fst p) (snd p)"] Cons.prems
  have "map_of (own (dict_assign d (fst p) (snd p))) k = Some v \<or> (k, v) \<in> set ps"
    by simp
  then show ?case
    by (cases p) (auto dest: dict_assign_member)
qed

lemma distinct_assign_dict:
  "distinct (map fst (own d)) \<Longrightarrow> distinct (map fst (own (assign_dict d ps)))"
  unfolding assign_dict_def
  by (induction ps arbitrary: d) (simp_all add: distinct_dict_assign)

lemma stored_reduce_acc:
  "foldl (\<lambda>totalObj entry.
              if truthy (snd entry)
              then foldl (\<lambda>totalObj additionalCacheKey.
                            dict_assign totalObj (js_toString (js_get (snd entry) additionalCacheKey)) (snd entry))
                         (dict_assign totalObj (fst entry) (snd entry))
                         (additionalCacheKeys ctx)
              else totalObj) acc es = assign_dict acc (staging_list ctx es)"
proof (induction es arbitrary: acc)
  case Nil
  then show ?case by (simp add: assign_dict_def staging_list_def)
next
  case (Cons e es)
  then show ?case
    by (simp add: assign_dict_def staging_list_def foldl_map)
qed

lemma stored_reduce_assign: "stored_reduce ctx es = assign_dict empty_dict (staging_list ctx es)"
  by (simp add: stored_reduce_def stored_reduce_acc)

lemma own_stored_reduce:
  "k \<noteq> ''__proto__'' \<Longrightarrow> map_of (own (stored_reduce ctx es)) k = map_of (rev (staging_list ctx es)) k"
  by (simp add: stored_reduce_assign own_assign_dict empty_dict_def)

lemma stored_reduce_member:
  "map_of (own (stored_reduce ctx es)) k = Some v \<Longrightarrow> (k, v) \<in> set (staging_list ctx es)"
  by (auto simp: stored_reduce_assign empty_dict_def dest: assign_dict_member)

lemma stored_reduce_dom:
  "k \<noteq> ''__proto__'' \<Longrightarrow>
     (map_of (own (stored_reduce ctx es)) k = None) = (k \<notin> fst ` set (staging_list ctx es))"
  by (simp add: own_stored_reduce map_of_eq_None_iff)

lemma distinct_stored_reduce: "distinct (map fst (own (stored_reduce ctx es)))"
  by (simp add: stored_reduce_assign distinct_assign_dict empty_dict_def)



lemma set_batch_acc:
  "foldl (\<lambda>operations entry.
              if \<not> truthy (snd entry) then operations
              else operations @ [Set (withCachePrefix ctx (fst entry)) (JSON_stringify ctx (snd entry))])
           acc entries
   = acc @ map (\<lambda>e. Set (withCachePrefix ctx (fst e)) (JSON_stringify ctx (snd e)))
             (filter (\<lambda>e. truthy (snd e)) entries)"
  by (induction entries arbitrary: acc) simp_all

lemma set_batch_eq:
  "set_batch ctx entries =
     map (\<lambda>e. Set (withCachePrefix ctx (fst e)) (JSON_stringify ctx (snd e)))
       (filter (\<lambda>e. truthy (snd e)) entries)"
  by (simp add: set_batch_def set_batch_acc)

lemma exec_ops_sets:
  "snd (exec_ops (map (\<lambda>e. Set (kf e) (vf e)) es) db) = db ++ map_of (rev (map (\<lambda>e. (kf e, vf e)) es))"
proof (induction es arbitrary: db)
  case Nil
  then show ?case by simp
next
  case (Cons e es)
  then show ?case
    by (auto simp: case_prod_beta fun_eq_iff map_add_def split: option.splits)
qed

lemma withCachePrefix_inj [simp]: "(withCachePrefix ctx a = withCachePrefix ctx b) = (a = b)"
  by (simp add: withCachePrefix_def)


subsection \<open>The resolver and the cache read\<close>

lemma getManyBy_fst:
  "fst (getManyBy ctx q keys w) =
     (if \<exists>k\<in>set keys. unresolvable ctx q keys k then Inl TypeError else Inr (resolved ctx q keys))"
  by (simp add: getManyBy_def resolve_keys_fst case_prod_beta Let_def resolved_def
      valueByKey_of_def model_find_def unresolvable_def)

lemma getManyBy_db: "redis_db (snd (getManyBy ctx q keys w)) = redis_db w"
  by (simp add: getManyBy_def resolve_keys_db model_find_def case_prod_beta Let_def)

lemma getManyBy_log:
  "log (snd (getManyBy ctx q keys w)) =
     log w @ ModelFind (if q = ''id'' then ''_id'' else q) keys #
       (if onDataMiss ctx
        then map (OnDataMiss (modelName (model ctx)))
               (filter (\<lambda>k. map_of (valueByKey_of ctx q keys) k = None)
                  (takeWhile (\<lambda>k. \<not> unresolvable ctx q keys k) keys))
        else [])"
  by (simp add: getManyBy_def resolve_keys_log model_find_def case_prod_beta Let_def
      valueByKey_of_def unresolvable_def)

lemma ordinary_resolvable:
  assumes "\<forall>k\<in>set keys. k \<notin> set Object_prototype_names"
  shows "\<not> (\<exists>k\<in>set keys. unresolvable ctx q keys k)"
    and "takeWhile (\<lambda>k. \<not> unresolvable ctx q keys k) keys = keys"
  using assms by (auto simp: unresolvable_def takeWhile_eq_all_conv)

lemma getManyBy_ordinary:
  assumes "\<forall>k\<in>set keys. k \<notin> set Object_prototype_names"
  shows "fst (getManyBy ctx q keys w) = Inr (resolved ctx q keys)"
    and "log (snd (getManyBy ctx q keys w)) =
           log w @ ModelFind (if q = ''id'' then ''_id'' else q) keys #
             (if onDataMiss ctx
              then map (OnDataMiss (modelName (model ctx)))
                     (filter (\<lambda>k. map_of (valueByKey_of ctx q keys) k = None) keys)
              else [])"
proof -
  show "fst (getManyBy ctx q keys w) = Inr (resolved ctx q keys)"
    using ordinary_resolvable(1) [OF assms, of ctx q] by (simp add: getManyBy_fst)
  show "log (snd (getManyBy ctx q keys w)) =
           log w @ ModelFind (if q = ''id'' then ''_id'' else q) keys #
             (if onDataMiss ctx
              then map (OnDataMiss (modelName (model ctx)))
                     (filter (\<lambda>k. map_of (valueByKey_of ctx q keys) k = None) keys)
              else [])"
    by (simp only: getManyBy_log ordinary_resolvable(2) [OF assms])
qed

lemma length_resolved: "length (resolved ctx q keys) = length keys"
  by (simp add: resolved_def)



lemma cached_reduce_bad:
  assumes "\<exists>k\<in>set keys. reply_truthy (r k) \<and> JSON_parse ctx (reply_text (r k)) = None"
  shows "cached_reduce ctx (map (\<lambda>k. (k, r k)) keys) acc = Inl SyntaxError"
  using assms
  by (induction keys arbitrary: acc) (auto split: option.splits)

lemma cached_reduce_ok:
  assumes "\<forall>k\<in>set keys. reply_truthy (r k) \<longrightarrow> JSON_parse ctx (reply_text (r k)) \<noteq> None"
    and "''__proto__'' \<notin> set keys"
  shows "\<exists>t. cached_reduce ctx (map (\<lambda>k. (k, r k)) keys) acc = Inr t
           \<and> proto t = proto acc
           \<and> (\<forall>k. map_of (own t) k = (if k \<in> set keys \<and> reply_truthy (r k)
                                 then JSON_parse ctx (reply_text (r k)) else map_of (own acc) k))
           \<and> (distinct (map fst (own acc)) \<longrightarrow> distinct (map fst (own t)))"
  using assms
proof (induction keys arbitrary: acc)
  case Nil
  then show ?case by simp
next
  case (Cons a keys)
  from Cons.prems have rest: "\<forall>k\<in>set keys. reply_truthy (r k) \<longrightarrow> JSON_parse ctx (reply_text (r k)) \<noteq> None"
    and np: "''__proto__'' \<notin> set keys" and a: "a \<noteq> ''__proto__''"
    by auto
  show ?case
  proof (cases "reply_truthy (r a)")
    case True
    with Cons.prems obtain v where v: "JSON_parse ctx (reply_text (r a)) = Some v" by auto
    let ?acc = "acc\<lparr>own := AList.update a v (own acc)\<rparr>"
    from Cons.IH [OF rest np, of ?acc] obtain t where
      t: "cached_reduce ctx (map (\<lambda>k. (k, r k)) keys) ?acc = Inr t"
         "proto t = proto ?acc"
         "\<forall>k. map_of (own t) k = (if k \<in> set keys \<and> reply_truthy (r k)
                                 then JSON_parse ctx (reply_text (r k)) else map_of (own ?acc) k)"
         "distinct (map fst (own ?acc)) \<longrightarrow> distinct (map fst (own t))"
      by blast
    show ?thesis
      using True v t a by (auto simp: dict_assign_ordinary update_conv' distinct_update)
  next
    case False
    from Cons.IH [OF rest np, of acc] False show ?thesis by auto
  qed
qed

lemma cacheSetMany_log:
  "enable ctx \<Longrightarrow> log (cacheSetMany ctx es w) =
     log w @ (if set_batch ctx es = [] then [] else [RedisMulti (set_batch ctx es)])"
  by (simp add: cacheSetMany_def Let_def redis_multi_log)

lemma cacheSetMany_db:
  "enable ctx \<Longrightarrow> redis_db (cacheSetMany ctx es w) = snd (exec_ops (set_batch ctx es) (redis_db w))"
  by (simp add: cacheSetMany_def Let_def redis_multi_db)

lemma zip_map_self: "zip keys (map g keys) = map (\<lambda>k. (k, g k)) keys"
  by (induction keys) simp_all

lemma malformed_reply:
  "malformed ctx w k = (reply_truthy (reply_of ctx w k) \<and> JSON_parse ctx (reply_text (reply_of ctx w k)) = None)"
  by (simp add: malformed_def reply_of_def cachedString_def split: option.splits)

lemma cacheHit_reply:
  "cacheHit ctx w k =
     (if reply_truthy (reply_of ctx w k)
      then (case JSON_parse ctx (reply_text (reply_of ctx w k)) of
              None \<Rightarrow> None | Some v \<Rightarrow> if truthy v then Some v else None)
      else None)"
  by (simp add: cacheHit_def reply_of_def cachedString_def split: option.splits)

lemma cacheGetManyBy_malformed:
  assumes "enable ctx" and "\<exists>k\<in>set keys. malformed ctx w k"
  shows "cacheGetManyBy ctx f keys w =
           (Inl SyntaxError, w\<lparr>log := log w @ [RedisMulti (map (\<lambda>key. Get (withCachePrefix ctx key)) keys)]\<rparr>)"
proof -
  have "cached_reduce ctx (map (\<lambda>k. (k, reply_of ctx w k)) keys) empty_dict = Inl SyntaxError"
    using assms(2) by (intro cached_reduce_bad) (simp add: malformed_reply)
  then show ?thesis
    using assms(1)
    by (simp add: cacheGetManyBy_def redis_multi_gets zip_map_self reply_of_def)
qed

lemma storedKeyValue_of_Nil: "storedKeyValue_of ctx f [] = []"
  by (simp add: storedKeyValue_of_def resolved_def keyBy_def Object_entries_def stored_reduce_def
      empty_dict_def)

lemma storedKeyValue_distinct: "distinct (map fst (storedKeyValue_of ctx f ks))"
  by (simp add: storedKeyValue_of_def distinct_stored_reduce)

lemma staging_list_truthy: "(k, v) \<in> set (staging_list ctx es) \<Longrightarrow> truthy v"
  by (auto simp: staging_list_def split: if_splits)

lemma storedKeyValue_truthy: "map_of (storedKeyValue_of ctx f ks) k = Some v \<Longrightarrow> truthy v"
  by (auto simp: storedKeyValue_of_def dest!: stored_reduce_member staging_list_truthy)

lemma cached_reduce_world:
  assumes "\<forall>k\<in>set keys. \<not> malformed ctx w k"
    and "\<forall>k\<in>set keys. k \<notin> set Object_prototype_names"
  shows "\<exists>ckv. cached_reduce ctx (map (\<lambda>k. (k, reply_of ctx w k)) keys) empty_dict = Inr ckv
           \<and> distinct (map fst (own ckv))
           \<and> (\<forall>k\<in>set keys. truthy (dict_get ckv k) = (cacheHit ctx w k \<noteq> None))
           \<and> (\<forall>k\<in>set keys. js_or (dict_get ckv k) JNull =
                  (case cacheHit ctx w k of Some v \<Rightarrow> v | None \<Rightarrow> JNull))
           \<and> proto ckv = JObjectPrototype"
proof -
  from assms(1) have "\<forall>k\<in>set keys. reply_truthy (reply_of ctx w k) \<longrightarrow> JSON_parse ctx (reply_text (reply_of ctx w k)) \<noteq> None"
    by (simp add: malformed_reply)
  moreover from assms(2) have "''__proto__'' \<notin> set keys" by auto
  ultimately obtain t where
    t: "cached_reduce ctx (map (\<lambda>k. (k, reply_of ctx w k)) keys) empty_dict = Inr t"
       "proto t = JObjectPrototype"
       "\<And>k. map_of (own t) k = (if k \<in> set keys \<and> reply_truthy (reply_of ctx w k)
                                 then JSON_parse ctx (reply_text (reply_of ctx w k)) else None)"
       "distinct (map fst (own t))"
    using cached_reduce_ok [of keys "reply_of ctx w" ctx empty_dict]
    by (auto simp: empty_dict_def)
  have g: "dict_get t k = (case map_of (own t) k of Some v \<Rightarrow> v | None \<Rightarrow> JUndefined)"
    if "k \<in> set keys" for k
    using that assms(2) t(2) by (simp add: dict_get_ordinary)
  have a: "truthy (dict_get t k) = (cacheHit ctx w k \<noteq> None)" if "k \<in> set keys" for k
    using that by (auto simp: g t(3) cacheHit_reply split: option.splits)
  have b: "js_or (dict_get t k) JNull = (case cacheHit ctx w k of Some v \<Rightarrow> v | None \<Rightarrow> JNull)"
    if "k \<in> set keys" for k
    using that by (auto simp: g t(3) cacheHit_reply js_or_def split: option.splits)
  from t(1) t(4) a b t(2) show ?thesis by blast
qed

lemma cacheGetManyBy_enabled:
  assumes en: "enable ctx" and ok: "\<forall>k\<in>set keys. \<not> malformed ctx w k"
    and kk: "\<forall>k\<in>set keys. k \<notin> set Object_prototype_names"
  shows "fst (cacheGetManyBy ctx f keys w) = Inr (map (response_for ctx f w keys) keys)" (is ?R)
    and "redis_db (snd (cacheGetManyBy ctx f keys w)) = snd (exec_ops (fill_batch ctx f w keys) (redis_db w))" (is ?D)
    and "log (snd (cacheGetManyBy ctx f keys w)) =
           log w @ RedisMulti (map (\<lambda>key. Get (withCachePrefix ctx key)) keys) #
           (if missedKeys ctx w keys = [] then []
            else (if onCacheMiss ctx then map (OnCacheMiss (modelName (model ctx))) (missedKeys ctx w keys) else [])
               @ ModelFind (if f = ''id'' then ''_id'' else f) (missedKeys ctx w keys)
               # (if onDataMiss ctx
                  then map (OnDataMiss (modelName (model ctx)))
                         (filter (\<lambda>k. map_of (valueByKey_of ctx f (missedKeys ctx w keys)) k = None)
                            (missedKeys ctx w keys))
                  else [])
               @ (if fill_batch ctx f w keys = [] then [] else [RedisMulti (fill_batch ctx f w keys)]))" (is ?L)
proof -
  from cached_reduce_world [OF ok kk] obtain ckv where
    ckv: "cached_reduce ctx (map (\<lambda>k. (k, reply_of ctx w k)) keys) empty_dict = Inr ckv"
    and dckv: "distinct (map fst (own ckv))"
    and hit: "\<And>k. k \<in> set keys \<Longrightarrow> truthy (dict_get ckv k) = (cacheHit ctx w k \<noteq> None)"
    and ans: "\<And>k. k \<in> set keys \<Longrightarrow> js_or (dict_get ckv k) JNull = (case cacheHit ctx w k of Some v \<Rightarrow> v | None \<Rightarrow> JNull)"
    and pckv: "proto ckv = JObjectPrototype"
    by blast
  let ?M = "missedKeys ctx w keys"
  let ?S = "storedKeyValue_of ctx f ?M"
  let ?sd = "stored_reduce ctx
       (Object_entries (keyBy (filter truthy (resolved ctx f ?M)) (\<lambda>item. js_get item f)))"
  have S: "own ?sd = ?S" by (simp add: storedKeyValue_of_def)
  have M: "filter (\<lambda>key. \<not> truthy (dict_get ckv key)) keys = ?M"
    unfolding missedKeys_def by (rule filter_cong) (simp_all add: hit)
  have mk: "\<forall>k\<in>set ?M. k \<notin> set Object_prototype_names"
    using kk by (simp add: missedKeys_def)
  note gm = getManyBy_ordinary [OF mk, of ctx f]
  have resp: "js_or (dict_get (spread2 ckv ?sd) k) JNull = response_for ctx f w keys k" if "k \<in> set keys" for k
  proof -
    from that kk have o: "k \<notin> set Object_prototype_names" by simp
    have g: "dict_get (spread2 ckv ?sd) k =
        (case (map_of (own ckv) ++ map_of ?S) k of Some v \<Rightarrow> v | None \<Rightarrow> JUndefined)"
      using o by (simp add: dict_get_ordinary map_of_spread2 dckv S storedKeyValue_distinct)
    have c: "dict_get ckv k = (case map_of (own ckv) k of Some v \<Rightarrow> v | None \<Rightarrow> JUndefined)"
      using pckv o by (rule dict_get_ordinary)
    show ?thesis
    proof (cases "map_of ?S k")
      case None
      then show ?thesis
        using ans [OF that] by (simp add: g c response_for_def map_add_def)
    next
      case (Some v)
      then have "truthy v" by (rule storedKeyValue_truthy)
      with Some show ?thesis
        by (simp add: g response_for_def map_add_def js_or_def)
    qed
  qed
  have unf: "cacheGetManyBy ctx f keys w =
     (let w1 = w\<lparr>log := log w @ [RedisMulti (map (\<lambda>key. Get (withCachePrefix ctx key)) keys)]\<rparr>
      in if ?M \<noteq> []
         then (Inr (map (\<lambda>key. js_or (dict_get (spread2 ckv ?sd) key) JNull) keys),
               cacheSetMany ctx (Object_entries ?S) (snd (getManyBy ctx f ?M (onBatchCacheMiss ctx ?M w1))))
         else (Inr (map (\<lambda>key. js_or (dict_get ckv key) JNull) keys), w1))"
    using en ckv
    by (simp add: cacheGetManyBy_def redis_multi_gets zip_map_self reply_of_def [symmetric, abs_def] M
        Let_def case_prod_beta gm(1) S)
  show ?R
  proof (cases "?M = []")
    case True
    then show ?thesis
      using ans by (simp add: unf response_for_def storedKeyValue_of_Nil)
  next
    case False
    then show ?thesis
      using resp by (simp add: unf)
  qed
  show ?D
  proof (cases "?M = []")
    case True
    then show ?thesis
      by (simp add: unf fill_batch_def storedKeyValue_of_Nil Object_entries_def set_batch_def)
  next
    case False
    then show ?thesis
      using en
      by (simp add: unf fill_batch_def cacheSetMany_db getManyBy_db onBatchCacheMiss_db)
  qed
  show ?L
  proof (cases "?M = []")
    case True
    then show ?thesis by (simp add: unf)
  next
    case False
    then show ?thesis
      using en
      by (simp add: unf fill_batch_def cacheSetMany_log gm(2) onBatchCacheMiss_log)
  qed
qed

lemma new_events_append: "log w' = log w @ evs \<Longrightarrow> new_events w w' = evs"
  by (simp add: new_events_def)

lemma cached_reduce_own:
  assumes "\<forall>k\<in>set keys. reply_truthy (r k) \<longrightarrow> JSON_parse ctx (reply_text (r k)) \<noteq> None"
  shows "\<exists>t. cached_reduce ctx (map (\<lambda>k. (k, r k)) keys) acc = Inr t
           \<and> (\<forall>k. k \<noteq> ''__proto__'' \<longrightarrow>
                  map_of (own t) k = (if k \<in> set keys \<and> reply_truthy (r k)
                                      then JSON_parse ctx (reply_text (r k)) else map_of (own acc) k))
           \<and> (''__proto__'' \<notin> set keys \<longrightarrow> proto t = proto acc)"
  using assms
proof (induction keys arbitrary: acc)
  case Nil
  then show ?case by simp
next
  case (Cons a keys)
  from Cons.prems have rest: "\<forall>k\<in>set keys. reply_truthy (r k) \<longrightarrow> JSON_parse ctx (reply_text (r k)) \<noteq> None"
    by simp
  show ?case
  proof (cases "reply_truthy (r a)")
    case True
    with Cons.prems obtain v where v: "JSON_parse ctx (reply_text (r a)) = Some v" by auto
    let ?acc = "dict_assign acc a v"
    from Cons.IH [OF rest, of ?acc] obtain t where
      t: "cached_reduce ctx (map (\<lambda>k. (k, r k)) keys) ?acc = Inr t"
         "\<forall>k. k \<noteq> ''__proto__'' \<longrightarrow>
              map_of (own t) k = (if k \<in> set keys \<and> reply_truthy (r k)
                                  then JSON_parse ctx (reply_text (r k)) else map_of (own ?acc) k)"
         "''__proto__'' \<notin> set keys \<longrightarrow> proto t = proto ?acc"
      by blast
    have c: "cached_reduce ctx (map (\<lambda>k. (k, r k)) (a # keys)) acc = Inr t"
      using True v t(1) by simp
    have o: "\<forall>k. k \<noteq> ''__proto__'' \<longrightarrow>
              map_of (own t) k = (if k \<in> set (a # keys) \<and> reply_truthy (r k)
                                  then JSON_parse ctx (reply_text (r k)) else map_of (own acc) k)"
      using t(2) True v by (auto simp: own_dict_assign)
    have p: "''__proto__'' \<notin> set (a # keys) \<longrightarrow> proto t = proto acc"
      using t(3) by (auto simp: dict_assign_ordinary)
    from c o p show ?thesis by blast
  next
    case False
    from Cons.IH [OF rest, of acc] False show ?thesis by auto
  qed
qed

lemma cacheGetManyBy_missed_events:
  assumes en: "enable ctx"
    and ckv: "cached_reduce ctx (map (\<lambda>k. (k, reply_of ctx w k)) keys) empty_dict = Inr ckv"
    and key: "key \<in> set keys"
    and miss: "\<not> truthy (dict_get ckv key)"
  shows "\<exists>ms rest. key \<in> set ms
           \<and> new_events w (snd (cacheGetManyBy ctx f keys w)) =
                 RedisMulti (map (\<lambda>key. Get (withCachePrefix ctx key)) keys)
                 # (if onCacheMiss ctx then map (OnCacheMiss (modelName (model ctx))) ms else [])
                 @ ModelFind (if f = ''id'' then ''_id'' else f) ms # rest"
proof -
  let ?ms = "filter (\<lambda>key. \<not> truthy (dict_get ckv key)) keys"
  let ?w1 = "w\<lparr>log := log w @ [RedisMulti (map (\<lambda>key. Get (withCachePrefix ctx key)) keys)]\<rparr>"
  let ?w3 = "snd (getManyBy ctx f ?ms (onBatchCacheMiss ctx ?ms ?w1))"
  from key miss have m: "key \<in> set ?ms" by simp
  have ne: "?ms \<noteq> []"
    using key miss by (auto simp: filter_empty_conv)
  have l3: "log ?w3 = log w @ RedisMulti (map (\<lambda>key. Get (withCachePrefix ctx key)) keys)
                 # (if onCacheMiss ctx then map (OnCacheMiss (modelName (model ctx))) ?ms else [])
                 @ ModelFind (if f = ''id'' then ''_id'' else f) ?ms
                 # (if onDataMiss ctx
                    then map (OnDataMiss (modelName (model ctx)))
                           (filter (\<lambda>k. map_of (valueByKey_of ctx f ?ms) k = None)
                              (takeWhile (\<lambda>k. \<not> unresolvable ctx f ?ms k) ?ms))
                    else [])"
    by (simp add: getManyBy_log onBatchCacheMiss_log)
  have "\<exists>rest. log (snd (cacheGetManyBy ctx f keys w)) = log ?w3 @ rest"
  proof (cases "fst (getManyBy ctx f ?ms (onBatchCacheMiss ctx ?ms ?w1))")
    case (Inl e)
    then have "snd (cacheGetManyBy ctx f keys w) = ?w3"
      using en ckv ne
      by (simp add: cacheGetManyBy_def redis_multi_gets zip_map_self reply_of_def [symmetric, abs_def]
          Let_def case_prod_beta)
    then show ?thesis by simp
  next
    case (Inr storedData)
    then have "\<exists>es. snd (cacheGetManyBy ctx f keys w) = cacheSetMany ctx es ?w3"
      using en ckv ne
      by (simp add: cacheGetManyBy_def redis_multi_gets zip_map_self reply_of_def [symmetric, abs_def]
          Let_def case_prod_beta)
        (rule exI, rule refl)
    then show ?thesis
      using en by (auto simp: cacheSetMany_log)
  qed
  then obtain rest where "log (snd (cacheGetManyBy ctx f keys w)) = log ?w3 @ rest" by blast
  then have "new_events w (snd (cacheGetManyBy ctx f keys w)) =
                 RedisMulti (map (\<lambda>key. Get (withCachePrefix ctx key)) keys)
                 # (if onCacheMiss ctx then map (OnCacheMiss (modelName (model ctx))) ?ms else [])
                 @ ModelFind (if f = ''id'' then ''_id'' else f) ?ms
                 # ((if onDataMiss ctx
                    then map (OnDataMiss (modelName (model ctx)))
                           (filter (\<lambda>k. map_of (valueByKey_of ctx f ?ms) k = None)
                              (takeWhile (\<lambda>k. \<not> unresolvable ctx f ?ms k) ?ms))
                    else []) @ rest)"
    by (intro new_events_append) (simp add: l3)
  with m show ?thesis by blast
qed

subsection \<open>Resolved records and staged keys\<close>

lemma keyBy_member:
  "(k, x) \<in> set (keyBy xs g) \<Longrightarrow> x \<in> set xs \<and> js_toString (g x) = k"
  using keyBy_Some [of xs g k x] keyBy_distinct [of xs g] by simp

lemma find_docs_subset: "set (find_docs ctx field keys) \<subseteq> set (documents (model ctx))"
  by (auto simp: find_docs_def)

lemma valueByKey_of_Some:
  assumes "map_of (valueByKey_of ctx f keys) k = Some d"
  shows "d \<in> set (documents (model ctx)) \<and> js_toString (getProp (model ctx) d f) = k"
  using keyBy_Some [OF assms [unfolded valueByKey_of_def]]
    find_docs_subset [of ctx "if f = ''id'' then ''_id'' else f" keys] by blast

lemma resolved_nth:
  assumes "i < length keys"
  shows "resolved ctx f keys ! i = JNull
       \<or> (\<exists>d\<in>set (documents (model ctx)). resolved ctx f keys ! i = JObj (toObject (model ctx) d)
              \<and> js_toString (getProp (model ctx) d f) = keys ! i)"
proof (cases "map_of (valueByKey_of ctx f keys) (keys ! i)")
  case None
  with assms show ?thesis by (simp add: resolved_def)
next
  case (Some d)
  from valueByKey_of_Some [OF this] Some assms show ?thesis
    by (auto simp: resolved_def)
qed

lemma resolved_cases:
  assumes "r \<in> set (resolved ctx f keys)"
  shows "r = JNull \<or> (\<exists>d\<in>set (documents (model ctx)). r = JObj (toObject (model ctx) d))"
proof -
  from assms obtain i where "i < length keys" "r = resolved ctx f keys ! i"
    by (auto simp: in_set_conv_nth length_resolved)
  with resolved_nth [of i keys ctx f] show ?thesis by auto
qed

lemma staging_list_member:
  assumes "(k, v) \<in> set (staging_list ctx es)"
  shows "\<exists>e\<in>set es. v = snd e \<and> truthy v
            \<and> (k = fst e \<or> k \<in> (\<lambda>a. js_toString (js_get v a)) ` set (additionalCacheKeys ctx))"
proof -
  from assms obtain e where e: "e \<in> set es" "truthy (snd e)"
    "(k, v) \<in> set ((fst e, snd e) # map (\<lambda>a. (js_toString (js_get (snd e) a), snd e)) (additionalCacheKeys ctx))"
    by (auto simp: staging_list_def split: if_splits)
  from e(3) have "v = snd e"
    and "k = fst e \<or> k \<in> (\<lambda>a. js_toString (js_get v a)) ` set (additionalCacheKeys ctx)"
    by auto
  with e(1,2) show ?thesis
    by (intro bexI [of _ e]) simp_all
qed

lemma storedKeyValue_of_Some:
  assumes "map_of (storedKeyValue_of ctx f ks) k = Some rcd"
  shows "rcd \<in> set (resolved ctx f ks) \<and> truthy rcd \<and> k \<in> addressing_keys ctx f rcd"
proof -
  let ?es = "Object_entries (keyBy (filter truthy (resolved ctx f ks)) (\<lambda>item. js_get item f))"
  from assms have "(k, rcd) \<in> set (staging_list ctx ?es)"
    by (auto simp: storedKeyValue_of_def dest: stored_reduce_member)
  from staging_list_member [OF this] obtain e where
    e: "e \<in> set ?es" "rcd = snd e" "truthy rcd"
       "k = fst e \<or> k \<in> (\<lambda>a. js_toString (js_get rcd a)) ` set (additionalCacheKeys ctx)"
    by blast
  from e(1) have "(fst e, snd e) \<in> set (keyBy (filter truthy (resolved ctx f ks)) (\<lambda>item. js_get item f))"
    by (simp add: set_Object_entries)
  from keyBy_member [OF this] e(2) have
    "rcd \<in> set (resolved ctx f ks)" "js_toString (js_get rcd f) = fst e"
    by simp_all
  with e(3,4) show ?thesis by (auto simp: addressing_keys_def)
qed

lemma storedKeyValue_of_record:
  assumes "map_of (storedKeyValue_of ctx f ks) k = Some rcd"
  shows "\<exists>d\<in>set (documents (model ctx)). rcd = JObj (toObject (model ctx) d)"
  using storedKeyValue_of_Some [OF assms] resolved_cases [of rcd ctx f ks] by auto






lemma reorder_fields [simp]:
  "enable (reorder_documents ctx docs) = enable ctx"
  "additionalCacheKeys (reorder_documents ctx docs) = additionalCacheKeys ctx"
  "JSON_parse (reorder_documents ctx docs) = JSON_parse ctx"
  "withCachePrefix (reorder_documents ctx docs) = withCachePrefix ctx"
  by (simp_all add: reorder_documents_def withCachePrefix_def fun_eq_iff)




subsection \<open>Which keys are staged\<close>

lemma staging_list_primary:
  assumes "e \<in> set es" and "truthy (snd e)"
  shows "(fst e, snd e) \<in> set (staging_list ctx es)"
  using assms by (auto simp: staging_list_def intro!: bexI [of _ e])


lemma storedDataEntries_truthy:
  assumes "(k, rcd) \<in> set (Object_entries (keyBy (filter truthy rs) g))"
  shows "truthy rcd"
  using assms keyBy_member [of k rcd "filter truthy rs" g] by (simp add: set_Object_entries)


lemma storedKeyValue_of_dom_primary:
  assumes "rcd \<in> set (resolved ctx f ks)" and "truthy rcd"
    and "js_toString (js_get rcd f) \<noteq> ''__proto__''"
  shows "map_of (storedKeyValue_of ctx f ks) (js_toString (js_get rcd f)) \<noteq> None"
proof -
  let ?kb = "keyBy (filter truthy (resolved ctx f ks)) (\<lambda>item. js_get item f)"
  let ?k = "js_toString (js_get rcd f)"
  from assms(1,2) have "map_of ?kb ?k \<noteq> None"
    by (auto simp: keyBy_None)
  then obtain r where r: "map_of ?kb ?k = Some r" by auto
  then have m: "(?k, r) \<in> set (Object_entries ?kb)"
    by (simp add: set_Object_entries map_of_SomeD)
  then have "truthy r" by (rule storedDataEntries_truthy)
  with m have "(?k, r) \<in> set (staging_list ctx (Object_entries ?kb))"
    using staging_list_primary [of "(?k, r)" _ ctx] by simp
  then have "?k \<in> fst ` set (staging_list ctx (Object_entries ?kb))"
    by (rule rev_image_eqI) simp
  then show ?thesis
    using assms by (simp add: storedKeyValue_of_def stored_reduce_dom)
qed

subsection \<open>The cache after a fill\<close>

lemma set_batch_pairs:
  "set_batch ctx es =
     map (\<lambda>p. Set (fst p) (snd p))
       (map (\<lambda>e. (withCachePrefix ctx (fst e), JSON_stringify ctx (snd e))) (filter (\<lambda>e. truthy (snd e)) es))"
  by (simp add: set_batch_eq)

lemma exec_set_batch:
  "snd (exec_ops (set_batch ctx es) db) =
     db ++ map_of (rev (map (\<lambda>e. (withCachePrefix ctx (fst e), JSON_stringify ctx (snd e)))
                          (filter (\<lambda>e. truthy (snd e)) es)))"
  unfolding set_batch_pairs exec_ops_sets by simp

lemma fill_db_staged:
  assumes "distinct (map fst es)" and "(k, v) \<in> set es" and "truthy v"
  shows "snd (exec_ops (set_batch ctx es) db) (withCachePrefix ctx k) = Some (JSON_stringify ctx v)"
proof -
  let ?L = "map (\<lambda>e. (withCachePrefix ctx (fst e), JSON_stringify ctx (snd e))) (filter (\<lambda>e. truthy (snd e)) es)"
  have "map fst ?L = map (withCachePrefix ctx) (map fst (filter (\<lambda>e. truthy (snd e)) es))"
    by simp
  moreover have "distinct (map fst (filter (\<lambda>e. truthy (snd e)) es))"
    using assms(1) by (rule distinct_map_filter)
  ultimately have d: "distinct (map fst ?L)"
    by (simp only: distinct_map) (auto simp: inj_on_def)
  have "(withCachePrefix ctx k, JSON_stringify ctx v) \<in> set ?L"
    using assms(2,3) by force
  with d have "map_of ?L (withCachePrefix ctx k) = Some (JSON_stringify ctx v)"
    by simp
  with d show ?thesis
    by (simp add: exec_set_batch map_of_rev_distinct map_add_def)
qed

lemma fill_db_other:
  assumes "x \<notin> withCachePrefix ctx ` fst ` set es"
  shows "snd (exec_ops (set_batch ctx es) db) x = db x"
proof -
  let ?L = "map (\<lambda>e. (withCachePrefix ctx (fst e), JSON_stringify ctx (snd e))) (filter (\<lambda>e. truthy (snd e)) es)"
  have "x \<notin> fst ` set (rev ?L)" using assms by force
  then have "map_of (rev ?L) x = None" by (simp add: map_of_eq_None_iff)
  then show ?thesis by (simp add: exec_set_batch map_add_def)
qed

lemma storedKeyValue_entry:
  "((k, v) \<in> set (storedKeyValue_of ctx f ks)) = (map_of (storedKeyValue_of ctx f ks) k = Some v)"
  using storedKeyValue_distinct [of ctx f ks] by simp

lemma fill_db_hit:
  assumes "enable ctx" and "\<forall>k\<in>set keys. \<not> malformed ctx w k"
    and "\<forall>k\<in>set keys. k \<notin> set Object_prototype_names"
    and "map_of (storedKeyValue_of ctx f (missedKeys ctx w keys)) k = Some v"
  shows "redis_db (snd (cacheGetManyBy ctx f keys w)) (withCachePrefix ctx k) = Some (JSON_stringify ctx v)"
proof -
  let ?S = "storedKeyValue_of ctx f (missedKeys ctx w keys)"
  have "distinct (map fst (Object_entries ?S))"
    by (simp add: distinct_Object_entries storedKeyValue_distinct)
  moreover have "(k, v) \<in> set (Object_entries ?S)"
    using assms(4) by (simp add: set_Object_entries storedKeyValue_entry)
  moreover have "truthy v" using assms(4) by (rule storedKeyValue_truthy)
  ultimately show ?thesis
    unfolding cacheGetManyBy_enabled(2) [OF assms(1,2,3)] fill_batch_def
    by (rule fill_db_staged)
qed

lemma fill_db_miss:
  assumes "enable ctx" and "\<forall>k\<in>set keys. \<not> malformed ctx w k"
    and "\<forall>k\<in>set keys. k \<notin> set Object_prototype_names"
    and "x \<notin> withCachePrefix ctx ` fst ` set (storedKeyValue_of ctx f (missedKeys ctx w keys))"
  shows "redis_db (snd (cacheGetManyBy ctx f keys w)) x = redis_db w x"
  unfolding cacheGetManyBy_enabled(2) [OF assms(1,2,3)] fill_batch_def
  using assms(4) by (intro fill_db_other) (simp add: set_Object_entries)







subsection \<open>The cache after the save hook\<close>







subsection \<open>A second read after a fill\<close>

lemma find_docs_mono:
  assumes "set ks' \<subseteq> set ks"
  shows "set (find_docs ctx field ks') \<subseteq> set (find_docs ctx field ks)"
  using assms by (auto simp: find_docs_def list_ex_iff)

lemma valueByKey_of_None:
  "(map_of (valueByKey_of ctx f ks) k = None) =
     (k \<notin> (\<lambda>d. js_toString (getProp (model ctx) d f)) ` set (find_docs ctx (if f = ''id'' then ''_id'' else f) ks))"
  unfolding valueByKey_of_def by (rule keyBy_None)

lemma valueByKey_of_found:
  assumes "map_of (valueByKey_of ctx f ks) k = Some d"
  shows "d \<in> set (find_docs ctx (if f = ''id'' then ''_id'' else f) ks)
       \<and> js_toString (getProp (model ctx) d f) = k"
  using keyBy_Some [OF assms [unfolded valueByKey_of_def]] .

lemma found_key_is_staged:
  assumes pk: "\<forall>d\<in>set (documents (model ctx)).
            js_toString (js_get (JObj (toObject (model ctx) d)) f) = js_toString (getProp (model ctx) d f)"
    and k: "k \<in> set ks"
    and found: "map_of (valueByKey_of ctx f ks) k = Some d"
    and np: "k \<noteq> ''__proto__''"
  shows "map_of (storedKeyValue_of ctx f ks) k \<noteq> None"
proof -
  from valueByKey_of_Some [OF found] have d: "d \<in> set (documents (model ctx))"
    and kd: "js_toString (getProp (model ctx) d f) = k" by simp_all
  let ?r = "JObj (toObject (model ctx) d)"
  have "?r \<in> set (resolved ctx f ks)"
    unfolding resolved_def using k found by (auto intro!: image_eqI [of _ _ k])
  moreover have "truthy ?r" by simp
  moreover have "js_toString (js_get ?r f) \<noteq> ''__proto__''"
    using pk d kd np by simp
  ultimately have "map_of (storedKeyValue_of ctx f ks) (js_toString (js_get ?r f)) \<noteq> None"
    by (rule storedKeyValue_of_dom_primary)
  with pk d kd show ?thesis by simp
qed

lemma nothing_left_to_fetch:
  assumes pk: "\<forall>d\<in>set (documents (model ctx)).
            js_toString (js_get (JObj (toObject (model ctx) d)) f) = js_toString (getProp (model ctx) d f)"
    and sub: "set ks' \<subseteq> set ks"
    and un: "\<forall>k\<in>set ks'. map_of (storedKeyValue_of ctx f ks) k = None"
    and k: "k \<in> set ks'"
    and np: "k \<noteq> ''__proto__''"
  shows "map_of (valueByKey_of ctx f ks') k = None"
proof (rule ccontr)
  assume "map_of (valueByKey_of ctx f ks') k \<noteq> None"
  then obtain d where "map_of (valueByKey_of ctx f ks') k = Some d" by auto
  from valueByKey_of_found [OF this]
  have d: "d \<in> set (find_docs ctx (if f = ''id'' then ''_id'' else f) ks')"
    and kd: "js_toString (getProp (model ctx) d f) = k" by simp_all
  from d find_docs_mono [OF sub, of ctx "if f = ''id'' then ''_id'' else f"]
  have "d \<in> set (find_docs ctx (if f = ''id'' then ''_id'' else f) ks)" by (rule subsetD [rotated])
  with kd have "k \<in> (\<lambda>d. js_toString (getProp (model ctx) d f)) ` set (find_docs ctx (if f = ''id'' then ''_id'' else f) ks)"
    by (intro image_eqI [of _ _ d]) simp_all
  then have "map_of (valueByKey_of ctx f ks) k \<noteq> None"
    by (simp add: valueByKey_of_None)
  then obtain d' where "map_of (valueByKey_of ctx f ks) k = Some d'" by auto
  from found_key_is_staged [OF pk _ this np] k sub un show False by auto
qed

lemma resolved_all_null:
  assumes "\<forall>k\<in>set ks. map_of (valueByKey_of ctx f ks) k = None"
  shows "filter truthy (resolved ctx f ks) = []"
  using assms by (auto simp: resolved_def filter_empty_conv)

lemma storedKeyValue_of_all_null:
  assumes "\<forall>k\<in>set ks. map_of (valueByKey_of ctx f ks) k = None"
  shows "storedKeyValue_of ctx f ks = []"
  by (simp add: storedKeyValue_of_def resolved_all_null [OF assms] keyBy_def Object_entries_def stored_reduce_def
      empty_dict_def)

lemma inj_withCachePrefix: "inj (withCachePrefix ctx)"
  by (simp add: inj_on_def)

lemma cachedString_cong:
  "redis_db w' = redis_db w \<Longrightarrow> cachedString ctx w' = cachedString ctx w"
  by (simp add: cachedString_def fun_eq_iff)

lemma cachedString_after_fill:
  assumes en: "enable ctx" and ok: "\<forall>k\<in>set keys. \<not> malformed ctx w k"
    and kk: "\<forall>k\<in>set keys. k \<notin> set Object_prototype_names"
  shows "cachedString ctx (snd (cacheGetManyBy ctx f keys w)) k =
           (case map_of (storedKeyValue_of ctx f (missedKeys ctx w keys)) k of
              Some v \<Rightarrow> Some (JSON_stringify ctx v)
            | None \<Rightarrow> cachedString ctx w k)"
proof (cases "map_of (storedKeyValue_of ctx f (missedKeys ctx w keys)) k")
  case None
  then have "k \<notin> fst ` set (storedKeyValue_of ctx f (missedKeys ctx w keys))"
    by (simp add: map_of_eq_None_iff)
  then have "withCachePrefix ctx k \<notin> withCachePrefix ctx ` fst ` set (storedKeyValue_of ctx f (missedKeys ctx w keys))"
    by (simp add: inj_image_mem_iff inj_withCachePrefix)
  from fill_db_miss [OF en ok kk this] None show ?thesis
    by (simp add: cachedString_def)
next
  case (Some v)
  from fill_db_hit [OF en ok kk Some] Some show ?thesis
    by (simp add: cachedString_def)
qed

lemma cacheHit_after_fill:
  assumes en: "enable ctx" and ok: "\<forall>k\<in>set keys. \<not> malformed ctx w k"
    and kk: "\<forall>k\<in>set keys. k \<notin> set Object_prototype_names"
    and rt: "\<forall>d\<in>set (documents (model ctx)).
            JSON_stringify ctx (JObj (toObject (model ctx) d)) \<noteq> []
            \<and> JSON_parse ctx (JSON_stringify ctx (JObj (toObject (model ctx) d)))
                = Some (JObj (toObject (model ctx) d))"
  shows "cacheHit ctx (snd (cacheGetManyBy ctx f keys w)) k =
           (case map_of (storedKeyValue_of ctx f (missedKeys ctx w keys)) k of
              Some v \<Rightarrow> Some v
            | None \<Rightarrow> cacheHit ctx w k)"
    and "malformed ctx (snd (cacheGetManyBy ctx f keys w)) k =
           (case map_of (storedKeyValue_of ctx f (missedKeys ctx w keys)) k of
              Some v \<Rightarrow> False
            | None \<Rightarrow> malformed ctx w k)"
proof -
  note cs = cachedString_after_fill [OF en ok kk, of f k]
  show "cacheHit ctx (snd (cacheGetManyBy ctx f keys w)) k =
           (case map_of (storedKeyValue_of ctx f (missedKeys ctx w keys)) k of
              Some v \<Rightarrow> Some v
            | None \<Rightarrow> cacheHit ctx w k)"
  proof (cases "map_of (storedKeyValue_of ctx f (missedKeys ctx w keys)) k")
    case None
    with cs show ?thesis by (simp add: cacheHit_def)
  next
    case (Some v)
    from storedKeyValue_of_record [OF Some] rt storedKeyValue_truthy [OF Some]
    have "JSON_stringify ctx v \<noteq> []" "JSON_parse ctx (JSON_stringify ctx v) = Some v" "truthy v"
      by auto
    with cs Some show ?thesis by (simp add: cacheHit_def)
  qed
  show "malformed ctx (snd (cacheGetManyBy ctx f keys w)) k =
           (case map_of (storedKeyValue_of ctx f (missedKeys ctx w keys)) k of
              Some v \<Rightarrow> False
            | None \<Rightarrow> malformed ctx w k)"
  proof (cases "map_of (storedKeyValue_of ctx f (missedKeys ctx w keys)) k")
    case None
    with cs show ?thesis by (simp add: malformed_def)
  next
    case (Some v)
    from storedKeyValue_of_record [OF Some] rt
    have "JSON_parse ctx (JSON_stringify ctx v) = Some v"
      by auto
    with cs Some show ?thesis by (simp add: malformed_def)
  qed
qed

lemma missedKeys_after_fill:
  assumes en: "enable ctx" and ok: "\<forall>k\<in>set keys. \<not> malformed ctx w k"
    and kk: "\<forall>k\<in>set keys. k \<notin> set Object_prototype_names"
    and rt: "\<forall>d\<in>set (documents (model ctx)).
            JSON_stringify ctx (JObj (toObject (model ctx) d)) \<noteq> []
            \<and> JSON_parse ctx (JSON_stringify ctx (JObj (toObject (model ctx) d)))
                = Some (JObj (toObject (model ctx) d))"
  shows "missedKeys ctx (snd (cacheGetManyBy ctx f keys w)) keys =
           filter (\<lambda>k. map_of (storedKeyValue_of ctx f (missedKeys ctx w keys)) k = None)
             (missedKeys ctx w keys)"
proof -
  have "(cacheHit ctx (snd (cacheGetManyBy ctx f keys w)) k = None) =
          (cacheHit ctx w k = None \<and> map_of (storedKeyValue_of ctx f (missedKeys ctx w keys)) k = None)" for k
    unfolding cacheHit_after_fill(1) [OF en ok kk rt] by (simp split: option.splits)
  then show ?thesis by (simp add: missedKeys_def)
qed

lemma on_miss_not_in [simp]:
  "OnDataMiss n k \<notin> set (map (OnCacheMiss n') ks)"
  by (induction ks) simp_all

subsection \<open>The concrete model\<close>

lemma withCachePrefix_enable [simp]: "withCachePrefix (ctx\<lparr>enable := b\<rparr>) = withCachePrefix ctx"
  by (simp add: withCachePrefix_def fun_eq_iff)

lemma sample_prefix [simp]: "withCachePrefix (sampleContext en additional) key = ''entry:'' @ key"
  by (simp add: withCachePrefix_def sampleContext_def plainModel_def toLowerCase_def)

lemma sample_fields [simp]:
  "enable (sampleContext en additional) = en"
  "additionalCacheKeys (sampleContext en additional) = additional"
  "onCacheMiss (sampleContext en additional) = True"
  "onDataMiss (sampleContext en additional) = True"
  "JSON_parse (sampleContext en additional) = sample_parse"
  "JSON_stringify (sampleContext en additional) = sample_stringify"
  "modelName (model (sampleContext en additional)) = ''Entry''"
  "documents (model (sampleContext en additional)) = [entry1, entry3, entry5]"
  "toObject (model (sampleContext en additional)) d = d"
  "getProp (model (sampleContext en additional)) d field = js_get (JObj d) field"
  "fieldEq (model (sampleContext en additional)) d field key = (map_of d field = Some (JStr key))"
  by (simp_all add: sampleContext_def plainModel_def)

lemma sample_stringify_simps [simp]:
  "sample_stringify (JObj entry1) = payload1"
  "sample_stringify (JObj entry3) = payload3"
  "sample_stringify (JObj entry5) = payload5"
  "sample_stringify (JObj stale3) = payloadStale3"
  by (simp_all add: sample_stringify_def entry1_def entry3_def entry5_def stale3_def entryP_def)

lemma sample_parse_simps [simp]:
  "sample_parse payload1 = Some (JObj entry1)"
  "sample_parse payload3 = Some (JObj entry3)"
  "sample_parse payload5 = Some (JObj entry5)"
  "sample_parse payloadStale3 = Some (JObj stale3)"
  "sample_parse ''0'' = Some (JNum ''0'')"
  "sample_parse ''false'' = Some (JBool False)"
  "sample_parse ''null'' = Some JNull"
  "sample_parse [] = None"
  "sample_parse ''{'' = None"
  by (simp_all add: sample_parse_def payload1_def payload3_def payload5_def payloadStale3_def
      payload7_def payloadA_def payloadU_def payloadP_def)

lemma emptyWorld_simps [simp]:
  "redis_db emptyWorld = Map.empty" "log emptyWorld = []"
  "redis_db (worldWith cached) = map_of cached" "log (worldWith cached) = []"
  by (simp_all add: emptyWorld_def worldWith_def)

lemma sample_ids [simp]:
  "map_of entry1 ''_id'' = Some (JStr ''id1'')"
  "map_of entry3 ''_id'' = Some (JStr ''id3'')"
  "map_of entry5 ''_id'' = Some (JStr ''id5'')"
  by (simp_all add: entry1_def entry3_def entry5_def)

lemma sample_keys_ordinary [simp]:
  "''id1'' \<notin> set Object_prototype_names"
  "''id2'' \<notin> set Object_prototype_names"
  "''id3'' \<notin> set Object_prototype_names"
  "''id5'' \<notin> set Object_prototype_names"
  "''slug3'' \<notin> set Object_prototype_names"
  "''slug'' \<notin> set Object_prototype_names"
  "''_id'' \<notin> set Object_prototype_names"
  by (simp_all add: Object_prototype_names_def)


lemma sample_payload_nonempty [simp]:
  "payload1 \<noteq> []" "payload3 \<noteq> []" "payload5 \<noteq> []"
  by (simp_all add: payload1_def payload3_def payload5_def)

text \<open>
  A fetched record whose additional-key value is the string \<open>__proto__\<close>: the assignment
  \<open>total["__proto__"] = value\<close> adds no property, and the fill writes the record under its
  \<open>_id\<close> only.
\<close>

lemma alias_named_proto_is_not_written:
  "js_toString (js_get (JObj entryP) ''slug'') = ''__proto__''
   \<and> new_events emptyWorld
         (snd (cacheGetManyBy (reorder_documents (sampleContext True [''slug'']) [entryP]) ''_id'' [''idP'']
                 emptyWorld))
       = [RedisMulti [Get ''entry:idP''],
          OnCacheMiss ''Entry'' ''idP'',
          ModelFind ''_id'' [''idP''],
          RedisMulti [Set ''entry:idP'' payloadP]]"
  by code_simp

section \<open>Properties of the cache methods\<close>

subsection \<open>Invalidation\<close>

text \<open>
  C8. For every key list, \<open>cacheClearMany\<close> (\<open>clearMany\<close>) issues exactly one batched
  cache delete that contains the prefixed form of every input key, in order, and
  \<open>cacheClear\<close> (\<open>clear\<close>) issues exactly one batched delete that contains the prefixed
  form of its key. They do so whatever the value of the enabled flag and whether or not the
  keys are in the cache: the calls have no error result, and afterwards none of the prefixed
  keys is in the cache while every other entry is unchanged.
\<close>

theorem C8_cacheClearMany_one_batched_delete:
  "new_events w (cacheClearMany ctx keys w) = [RedisMulti (map (\<lambda>key. Del (withCachePrefix ctx key)) keys)]
   \<and> redis_db (cacheClearMany ctx keys w) =
       (\<lambda>k. if k \<in> withCachePrefix ctx ` set keys then None else redis_db w k)
   \<and> cacheClearMany (ctx\<lparr>enable := b\<rparr>) keys w = cacheClearMany ctx keys w
   \<and> new_events w (cacheClear ctx key w) = [RedisMulti [Del (withCachePrefix ctx key)]]
   \<and> redis_db (cacheClear ctx key w) = (redis_db w)(withCachePrefix ctx key := None)
   \<and> cacheClear (ctx\<lparr>enable := b\<rparr>) key w = cacheClear ctx key w"
  by (auto simp: cacheClear_def cacheClearMany_def redis_multi_log redis_multi_db exec_ops_dels
      new_events_append fun_eq_iff)

text \<open>
  The scenario \<open>clearMany(["id1","id3","id5"])\<close> with caching disabled, and \<open>clear("id3")\<close>
  on a cache that holds the key and on one that does not.
\<close>

theorem C8_witness:
  "new_events emptyWorld (cacheClearMany (sampleContext False []) [''id1'', ''id3'', ''id5''] emptyWorld)
     = [RedisMulti [Del ''entry:id1'', Del ''entry:id3'', Del ''entry:id5'']]
   \<and> redis_db (cacheClearMany (sampleContext False []) [''id1'', ''id3'', ''id5'']
         (worldWith [(''entry:id3'', payload3)])) ''entry:id3'' = None
   \<and> new_events (worldWith [(''entry:id3'', payload3)])
         (cacheClear (sampleContext False []) ''id3'' (worldWith [(''entry:id3'', payload3)]))
     = [RedisMulti [Del ''entry:id3'']]
   \<and> redis_db (cacheClear (sampleContext False []) ''id3'' (worldWith [(''entry:id3'', payload3)]))
         ''entry:id3'' = None
   \<and> new_events emptyWorld (cacheClear (sampleContext True []) ''id3'' emptyWorld)
     = [RedisMulti [Del ''entry:id3'']]"
  using C8_cacheClearMany_one_batched_delete [of emptyWorld "sampleContext False []" "[''id1'', ''id3'', ''id5'']"]
    C8_cacheClearMany_one_batched_delete [of "worldWith [(''entry:id3'', payload3)]" "sampleContext False []" "[''id1'', ''id3'', ''id5'']" _ "''id3''"]
    C8_cacheClearMany_one_batched_delete [of emptyWorld "sampleContext True []" _ _ "''id3''"]
  by simp

subsection \<open>Write-through\<close>

text \<open>
  C7. For every entry list, \<open>cacheSetMany\<close> stages a serialized write exactly for the
  entries that pass its filter, and every staged write comes from an entry whose value is
  not \<open>null\<close> (nor \<open>undefined\<close>); entries with a null value are skipped, so that
  removing them from the input changes nothing. The surviving entries are issued as one
  batched write; when none survives the call returns with the world untouched (no round
  trip); with the enabled flag off the call does nothing.
\<close>

theorem C7_cacheSetMany_skips_null_values:
  "(enable ctx \<longrightarrow>
      (let batch = map (\<lambda>e. Set (withCachePrefix ctx (fst e)) (JSON_stringify ctx (snd e)))
                     (filter (\<lambda>e. truthy (snd e)) entries)
       in set_batch ctx entries = batch
          \<and> (\<forall>operation\<in>set batch. \<exists>e\<in>set entries. snd e \<noteq> JNull \<and> snd e \<noteq> JUndefined
                \<and> operation = Set (withCachePrefix ctx (fst e)) (JSON_stringify ctx (snd e)))
          \<and> (batch \<noteq> [] \<longrightarrow>
                new_events w (cacheSetMany ctx entries w) = [RedisMulti batch]
                \<and> redis_db (cacheSetMany ctx entries w) = snd (exec_ops batch (redis_db w)))
          \<and> (batch = [] \<longrightarrow> cacheSetMany ctx entries w = w)
          \<and> cacheSetMany ctx (filter (\<lambda>e. snd e \<noteq> JNull \<and> snd e \<noteq> JUndefined) entries) w
              = cacheSetMany ctx entries w))
   \<and> (\<not> enable ctx \<longrightarrow> cacheSetMany ctx entries w = w)"
proof -
  let ?batch = "map (\<lambda>e. Set (withCachePrefix ctx (fst e)) (JSON_stringify ctx (snd e)))
                     (filter (\<lambda>e. truthy (snd e)) entries)"
  have b: "set_batch ctx entries = ?batch" by (rule set_batch_eq)
  have staged: "\<forall>operation\<in>set ?batch. \<exists>e\<in>set entries. snd e \<noteq> JNull \<and> snd e \<noteq> JUndefined
                \<and> operation = Set (withCachePrefix ctx (fst e)) (JSON_stringify ctx (snd e))"
    by force
  have "filter (\<lambda>e. truthy (snd e)) (filter (\<lambda>e. snd e \<noteq> JNull \<and> snd e \<noteq> JUndefined) entries)
          = filter (\<lambda>e. truthy (snd e)) entries"
    by (auto intro: filter_cong)
  then have skip: "set_batch ctx (filter (\<lambda>e. snd e \<noteq> JNull \<and> snd e \<noteq> JUndefined) entries) = set_batch ctx entries"
    by (simp add: set_batch_eq)
  have same: "cacheSetMany ctx (filter (\<lambda>e. snd e \<noteq> JNull \<and> snd e \<noteq> JUndefined) entries) w
              = cacheSetMany ctx entries w"
    by (simp add: cacheSetMany_def skip)
  have one: "enable ctx \<Longrightarrow> ?batch \<noteq> [] \<Longrightarrow>
                new_events w (cacheSetMany ctx entries w) = [RedisMulti ?batch]
                \<and> redis_db (cacheSetMany ctx entries w) = snd (exec_ops ?batch (redis_db w))"
    using b by (simp add: cacheSetMany_log cacheSetMany_db new_events_append)
  have none: "enable ctx \<Longrightarrow> ?batch = [] \<Longrightarrow> cacheSetMany ctx entries w = w"
    using b by (simp add: cacheSetMany_def)
  have off: "\<not> enable ctx \<Longrightarrow> cacheSetMany ctx entries w = w"
    by (simp add: cacheSetMany_def)
  from b staged same one none off show ?thesis
    unfolding Let_def by blast
qed

text \<open>The scenario \<open>setMany([["id1", ...], ["id2", null], ["id3", ...]])\<close>.\<close>

theorem C7_witness:
  "new_events emptyWorld
     (cacheSetMany (sampleContext True []) [(''id1'', JObj entry1), (''id2'', JNull), (''id3'', JObj entry3)] emptyWorld)
     = [RedisMulti [Set ''entry:id1'' payload1, Set ''entry:id3'' payload3]]
   \<and> cacheSetMany (sampleContext True []) [(''id2'', JNull)] emptyWorld = emptyWorld
   \<and> cacheSetMany (sampleContext False []) [(''id1'', JObj entry1)] emptyWorld = emptyWorld"
  using C7_cacheSetMany_skips_null_values [of "sampleContext True []" "[(''id1'', JObj entry1), (''id2'', JNull), (''id3'', JObj entry3)]" emptyWorld]
    C7_cacheSetMany_skips_null_values [of "sampleContext True []" "[(''id2'', JNull)]" emptyWorld]
    C7_cacheSetMany_skips_null_values [of "sampleContext False []" "[(''id1'', JObj entry1)]" emptyWorld]
  by (simp add: Let_def)

subsection \<open>Reads with caching disabled\<close>

text \<open>
  C6. When the enabled flag is false, \<open>cacheGetManyBy(field, keys)\<close> is
  \<open>getManyBy(field, keys)\<close> for every field and key list: the same outcome (the same
  result list, or the same exception) and the same effects. The cache is neither read nor
  written (no Redis batch is issued and the cache content is unchanged) and no cache-miss
  event is emitted. When no found document is filed under the key \<open>__proto__\<close>, the outcome
  and the events are these: the call throws when some key names a member of
  \<open>Object.prototype\<close> and has no document, and otherwise returns the projections of
  the documents filed under the keys, \<open>null\<close> where there is none; its events are the
  store query followed by the resolver's data-miss events, one for each key without a
  document, up to the first key on which the resolver throws, if there is one.
\<close>

theorem C6_disabled_cache_delegates_to_getManyBy:
  assumes "\<not> enable ctx"
  shows "cacheGetManyBy ctx f keys w = getManyBy ctx f keys w
       \<and> redis_db (snd (cacheGetManyBy ctx f keys w)) = redis_db w
       \<and> (\<forall>e\<in>set (new_events w (snd (cacheGetManyBy ctx f keys w))).
             (\<forall>batch. e \<noteq> RedisMulti batch) \<and> (\<forall>name key. e \<noteq> OnCacheMiss name key))
       \<and> (map_of (valueByKey_of ctx f keys) ''__proto__'' = None \<longrightarrow>
             fst (cacheGetManyBy ctx f keys w) =
               (if \<exists>k\<in>set keys. unresolvable ctx f keys k then Inl TypeError
                else Inr (resolved ctx f keys))
             \<and> new_events w (snd (cacheGetManyBy ctx f keys w)) =
                 ModelFind (if f = ''id'' then ''_id'' else f) keys #
                 (if onDataMiss ctx
                  then map (OnDataMiss (modelName (model ctx)))
                         (filter (\<lambda>k. map_of (valueByKey_of ctx f keys) k = None)
                            (takeWhile (\<lambda>k. \<not> unresolvable ctx f keys k) keys))
                  else []))"
proof -
  have eq: "cacheGetManyBy ctx f keys w = getManyBy ctx f keys w"
    using assms by (simp add: cacheGetManyBy_def)
  have ev: "new_events w (snd (getManyBy ctx f keys w)) =
           ModelFind (if f = ''id'' then ''_id'' else f) keys #
           (if onDataMiss ctx
            then map (OnDataMiss (modelName (model ctx)))
                   (filter (\<lambda>k. map_of (valueByKey_of ctx f keys) k = None)
                      (takeWhile (\<lambda>k. \<not> unresolvable ctx f keys k) keys))
            else [])"
    by (rule new_events_append) (simp add: getManyBy_log)
  have no: "\<forall>e\<in>set (new_events w (snd (getManyBy ctx f keys w))).
             (\<forall>batch. e \<noteq> RedisMulti batch) \<and> (\<forall>name key. e \<noteq> OnCacheMiss name key)"
    unfolding ev by auto
  show ?thesis
    unfolding eq by (intro conjI impI refl getManyBy_db getManyBy_fst ev no)
qed

text \<open>
  The repository's test \<open>disable cache\<close>, on the keys \<open>id1\<close>, \<open>id2\<close>, \<open>id3\<close>, and the
  keys \<open>id2\<close>, \<open>constructor\<close>, \<open>id1\<close>.
\<close>

theorem C6_witness:
  "\<not> enable (sampleContext False [''slug''])
   \<and> cacheGetManyBy (sampleContext False [''slug'']) ''_id'' [''id1'', ''id2'', ''id3''] emptyWorld
       = getManyBy (sampleContext False [''slug'']) ''_id'' [''id1'', ''id2'', ''id3''] emptyWorld
   \<and> fst (cacheGetManyBy (sampleContext False [''slug'']) ''_id'' [''id1'', ''id2'', ''id3''] emptyWorld)
      = Inr [JObj entry1, JNull, JObj entry3]
   \<and> new_events emptyWorld
        (snd (cacheGetManyBy (sampleContext False [''slug'']) ''_id'' [''id1'', ''id2'', ''id3''] emptyWorld))
      = [ModelFind ''_id'' [''id1'', ''id2'', ''id3''], OnDataMiss ''Entry'' ''id2'']
   \<and> cacheGetManyBy (sampleContext False [''slug'']) ''_id'' [''id2'', ''constructor'', ''id1''] emptyWorld
       = getManyBy (sampleContext False [''slug'']) ''_id'' [''id2'', ''constructor'', ''id1''] emptyWorld
   \<and> map_of (valueByKey_of (sampleContext False [''slug'']) ''_id'' [''id2'', ''constructor'', ''id1''])
         ''__proto__'' = None
   \<and> list_ex (unresolvable (sampleContext False [''slug'']) ''_id'' [''id2'', ''constructor'', ''id1''])
         [''id2'', ''constructor'', ''id1'']
   \<and> fst (cacheGetManyBy (sampleContext False [''slug'']) ''_id'' [''id2'', ''constructor'', ''id1''] emptyWorld)
      = Inl TypeError
   \<and> new_events emptyWorld
        (snd (cacheGetManyBy (sampleContext False [''slug'']) ''_id'' [''id2'', ''constructor'', ''id1''] emptyWorld))
      = [ModelFind ''_id'' [''id2'', ''constructor'', ''id1''], OnDataMiss ''Entry'' ''id2'']"
proof -
  have h: "\<not> enable (sampleContext False [''slug''])" by simp
  note t = C6_disabled_cache_delegates_to_getManyBy
    [OF h, of "''_id''" "[''id1'', ''id2'', ''id3'']" emptyWorld, THEN conjunct1]
  note u = C6_disabled_cache_delegates_to_getManyBy
    [OF h, of "''_id''" "[''id2'', ''constructor'', ''id1'']" emptyWorld, THEN conjunct1]
  have n: "map_of (valueByKey_of (sampleContext False [''slug'']) ''_id'' [''id2'', ''constructor'', ''id1''])
             ''__proto__'' = None"
    by code_simp
  note v = C6_disabled_cache_delegates_to_getManyBy
    [OF h, of "''_id''" "[''id2'', ''constructor'', ''id1'']" emptyWorld,
     THEN conjunct2, THEN conjunct2, THEN conjunct2, THEN mp, OF n, THEN conjunct1]
  have x: "list_ex (unresolvable (sampleContext False [''slug'']) ''_id'' [''id2'', ''constructor'', ''id1''])
             [''id2'', ''constructor'', ''id1'']"
    by code_simp
  have e1: "fst (cacheGetManyBy (sampleContext False [''slug'']) ''_id'' [''id1'', ''id2'', ''id3''] emptyWorld)
      = Inr [JObj entry1, JNull, JObj entry3]"
    by code_simp
  have e2: "new_events emptyWorld
        (snd (cacheGetManyBy (sampleContext False [''slug'']) ''_id'' [''id1'', ''id2'', ''id3''] emptyWorld))
      = [ModelFind ''_id'' [''id1'', ''id2'', ''id3''], OnDataMiss ''Entry'' ''id2'']"
    by code_simp
  have e3: "fst (cacheGetManyBy (sampleContext False [''slug'']) ''_id'' [''id2'', ''constructor'', ''id1''] emptyWorld)
      = Inl TypeError"
    using v x by (simp add: list_ex_iff)
  have e4: "new_events emptyWorld
        (snd (cacheGetManyBy (sampleContext False [''slug'']) ''_id'' [''id2'', ''constructor'', ''id1''] emptyWorld))
      = [ModelFind ''_id'' [''id2'', ''constructor'', ''id1''], OnDataMiss ''Entry'' ''id2'']"
    by code_simp
  show ?thesis by (intro conjI h t e1 e2 u n x e3 e4)
qed

subsection \<open>What counts as a cache miss\<close>

text \<open>
  The test for a miss is \<open>!cachedKeyValue[key]\<close>, a read that also sees the members of
  \<open>Object.prototype\<close>. With an empty string cached under \<open>entry:constructor\<close> nothing is
  assigned for the key \<open>constructor\<close>, the read gives the inherited function \<open>Object\<close>,
  and the key counts as a hit: no cache-miss event, no store query, and the function is the
  answer. A cached \<open>0\<close> under \<open>entry:__proto__\<close> is assigned, but the assignment of a
  number to \<open>__proto__\<close> is ignored, and the key is a hit as well. And an object cached
  under \<open>entry:__proto__\<close> becomes the prototype of \<open>cachedKeyValue\<close>, so that a
  key of the same batch with an empty cached string counts as a hit when the object has a
  property of that name.
\<close>

theorem C10_counterexample:
  "cachedString (sampleContext True []) (worldWith [(''entry:constructor'', [])]) ''constructor'' = Some []
   \<and> fst (cacheGetManyBy (sampleContext True []) ''_id'' [''constructor'']
            (worldWith [(''entry:constructor'', [])]))
       = Inr [JFunction ''Object'']
   \<and> new_events (worldWith [(''entry:constructor'', [])])
         (snd (cacheGetManyBy (sampleContext True []) ''_id'' [''constructor'']
                 (worldWith [(''entry:constructor'', [])])))
       = [RedisMulti [Get ''entry:constructor'']]
   \<and> cachedString (sampleContext True []) (worldWith [(''entry:__proto__'', ''0'')]) ''__proto__'' = Some ''0''
   \<and> JSON_parse (sampleContext True []) ''0'' = Some (JNum ''0'')
   \<and> \<not> truthy (JNum ''0'')
   \<and> fst (cacheGetManyBy (sampleContext True []) ''_id'' [''__proto__'']
            (worldWith [(''entry:__proto__'', ''0'')]))
       = Inr [JObjectPrototype]
   \<and> new_events (worldWith [(''entry:__proto__'', ''0'')])
         (snd (cacheGetManyBy (sampleContext True []) ''_id'' [''__proto__'']
                 (worldWith [(''entry:__proto__'', ''0'')])))
       = [RedisMulti [Get ''entry:__proto__'']]
   \<and> cachedString (sampleContext True [])
         (worldWith [(''entry:__proto__'', payload5), (''entry:title'', [])]) ''title'' = Some []
   \<and> fst (cacheGetManyBy (sampleContext True []) ''_id'' [''__proto__'', ''title'']
            (worldWith [(''entry:__proto__'', payload5), (''entry:title'', [])]))
       = Inr [JObj entry5, JStr ''Rush'']
   \<and> new_events (worldWith [(''entry:__proto__'', payload5), (''entry:title'', [])])
         (snd (cacheGetManyBy (sampleContext True []) ''_id'' [''__proto__'', ''title'']
                 (worldWith [(''entry:__proto__'', payload5), (''entry:title'', [])])))
       = [RedisMulti [Get ''entry:__proto__'', Get ''entry:title'']]"
proof (intro conjI)
  show "cachedString (sampleContext True []) (worldWith [(''entry:constructor'', [])]) ''constructor'' = Some []"
    by (simp add: cachedString_def)
  show "fst (cacheGetManyBy (sampleContext True []) ''_id'' [''constructor'']
            (worldWith [(''entry:constructor'', [])]))
       = Inr [JFunction ''Object'']"
    by code_simp
  show "new_events (worldWith [(''entry:constructor'', [])])
         (snd (cacheGetManyBy (sampleContext True []) ''_id'' [''constructor'']
                 (worldWith [(''entry:constructor'', [])])))
       = [RedisMulti [Get ''entry:constructor'']]"
    by code_simp
  show "cachedString (sampleContext True []) (worldWith [(''entry:__proto__'', ''0'')]) ''__proto__'' = Some ''0''"
    by (simp add: cachedString_def)
  show "JSON_parse (sampleContext True []) ''0'' = Some (JNum ''0'')"
    by simp
  show "\<not> truthy (JNum ''0'')"
    by simp
  show "fst (cacheGetManyBy (sampleContext True []) ''_id'' [''__proto__'']
            (worldWith [(''entry:__proto__'', ''0'')]))
       = Inr [JObjectPrototype]"
    by code_simp
  show "new_events (worldWith [(''entry:__proto__'', ''0'')])
         (snd (cacheGetManyBy (sampleContext True []) ''_id'' [''__proto__'']
                 (worldWith [(''entry:__proto__'', ''0'')])))
       = [RedisMulti [Get ''entry:__proto__'']]"
    by code_simp
  show "cachedString (sampleContext True [])
         (worldWith [(''entry:__proto__'', payload5), (''entry:title'', [])]) ''title'' = Some []"
    by (simp add: cachedString_def)
  show "fst (cacheGetManyBy (sampleContext True []) ''_id'' [''__proto__'', ''title'']
            (worldWith [(''entry:__proto__'', payload5), (''entry:title'', [])]))
       = Inr [JObj entry5, JStr ''Rush'']"
    by code_simp
  show "new_events (worldWith [(''entry:__proto__'', payload5), (''entry:title'', [])])
         (snd (cacheGetManyBy (sampleContext True []) ''_id'' [''__proto__'', ''title'']
                 (worldWith [(''entry:__proto__'', payload5), (''entry:title'', [])])))
       = [RedisMulti [Get ''entry:__proto__'', Get ''entry:title'']]"
    by code_simp
qed

text \<open>
  C10 (amended). With caching enabled and no cached string of the batch on which
  \<open>JSON.parse\<close> throws, a key other than \<open>__proto__\<close> whose cached string parses to a
  falsy JSON value (\<open>false\<close>, \<open>0\<close>, \<open>""\<close>, \<open>null\<close>) is treated as a cache miss
  although an entry exists under the key, and so is a key whose cached string is empty,
  provided it names no member of \<open>Object.prototype\<close> and the batch does not contain the
  key \<open>__proto__\<close>: a cache-miss event is emitted for the key (when the observer is
  supplied) and the store is queried with a key list that contains it.
\<close>

theorem C10_falsy_cached_value_is_a_cache_miss:
  assumes "enable ctx"
    and "\<forall>k\<in>set keys. \<not> malformed ctx w k"
    and "key \<in> set keys"
    and "cachedString ctx w key = Some s"
    and "(s \<noteq> [] \<and> (\<exists>v. JSON_parse ctx s = Some v \<and> \<not> truthy v) \<and> key \<noteq> ''__proto__'')
         \<or> (s = [] \<and> key \<notin> set Object_prototype_names \<and> ''__proto__'' \<notin> set keys)"
  shows "(onCacheMiss ctx \<longrightarrow>
            OnCacheMiss (modelName (model ctx)) key \<in> set (new_events w (snd (cacheGetManyBy ctx f keys w))))
       \<and> (\<exists>ks. key \<in> set ks
              \<and> ModelFind (if f = ''id'' then ''_id'' else f) ks
                    \<in> set (new_events w (snd (cacheGetManyBy ctx f keys w))))"
proof -
  from assms(2) have "\<forall>k\<in>set keys. reply_truthy (reply_of ctx w k)
      \<longrightarrow> JSON_parse ctx (reply_text (reply_of ctx w k)) \<noteq> None"
    by (simp add: malformed_reply)
  from cached_reduce_own [OF this, of empty_dict] obtain ckv where
    ckv: "cached_reduce ctx (map (\<lambda>k. (k, reply_of ctx w k)) keys) empty_dict = Inr ckv"
    and ownk0: "\<forall>k. k \<noteq> ''__proto__'' \<longrightarrow>
         map_of (own ckv) k = (if k \<in> set keys \<and> reply_truthy (reply_of ctx w k)
                                then JSON_parse ctx (reply_text (reply_of ctx w k))
                                else map_of (own empty_dict) k)"
    and pr0: "''__proto__'' \<notin> set keys \<longrightarrow> proto ckv = proto empty_dict"
    by blast
  have ownk: "map_of (own ckv) k = (if k \<in> set keys \<and> reply_truthy (reply_of ctx w k)
                                then JSON_parse ctx (reply_text (reply_of ctx w k)) else None)"
    if "k \<noteq> ''__proto__''" for k
    using ownk0 that by (simp add: empty_dict_def)
  have pr: "proto ckv = JObjectPrototype" if "''__proto__'' \<notin> set keys"
    using pr0 that by (simp add: empty_dict_def)
  have r: "reply_of ctx w key = Bulk s"
    using assms(4) by (simp add: reply_of_def cachedString_def)
  have miss: "\<not> truthy (dict_get ckv key)"
    using assms(5)
  proof (elim disjE conjE exE)
    fix v
    assume "s \<noteq> []" "JSON_parse ctx s = Some v" "\<not> truthy v" "key \<noteq> ''__proto__''"
    with ownk [of key] assms(3) r have "map_of (own ckv) key = Some v" by simp
    with \<open>\<not> truthy v\<close> show ?thesis by (simp add: dict_get_def)
  next
    assume e: "s = []" and o: "key \<notin> set Object_prototype_names" and np: "''__proto__'' \<notin> set keys"
    from o have "key \<noteq> ''__proto__''" by auto
    with ownk [of key] r e have "map_of (own ckv) key = None" by simp
    with pr [OF np] o show ?thesis by (simp add: dict_get_ordinary)
  qed
  from cacheGetManyBy_missed_events [OF assms(1) ckv assms(3) miss, of f] obtain ms rest where
    m: "key \<in> set ms"
    and l: "new_events w (snd (cacheGetManyBy ctx f keys w)) =
                 RedisMulti (map (\<lambda>key. Get (withCachePrefix ctx key)) keys)
                 # (if onCacheMiss ctx then map (OnCacheMiss (modelName (model ctx))) ms else [])
                 @ ModelFind (if f = ''id'' then ''_id'' else f) ms # rest"
    by blast
  have c: "onCacheMiss ctx \<longrightarrow>
            OnCacheMiss (modelName (model ctx)) key \<in> set (new_events w (snd (cacheGetManyBy ctx f keys w)))"
    unfolding l using m by simp
  have q: "ModelFind (if f = ''id'' then ''_id'' else f) ms
                    \<in> set (new_events w (snd (cacheGetManyBy ctx f keys w)))"
    unfolding l by simp
  from m c q show ?thesis by blast
qed

text \<open>A cached \<open>0\<close> under \<open>entry:id1\<close> and an empty string under \<open>entry:id2\<close>.\<close>

theorem C10_witness:
  "enable (sampleContext True [])
   \<and> list_all (\<lambda>k. \<not> malformed (sampleContext True [])
                       (worldWith [(''entry:id1'', ''0''), (''entry:id2'', [])]) k) [''id1'', ''id2'']
   \<and> ''id1'' \<in> set [''id1'', ''id2'']
   \<and> cachedString (sampleContext True []) (worldWith [(''entry:id1'', ''0''), (''entry:id2'', [])]) ''id1''
       = Some ''0''
   \<and> ''0'' \<noteq> []
   \<and> JSON_parse (sampleContext True []) ''0'' = Some (JNum ''0'')
   \<and> \<not> truthy (JNum ''0'')
   \<and> ''id1'' \<noteq> ''__proto__''
   \<and> onCacheMiss (sampleContext True [])
   \<and> OnCacheMiss (modelName (model (sampleContext True []))) ''id1''
         \<in> set (new_events (worldWith [(''entry:id1'', ''0''), (''entry:id2'', [])])
                  (snd (cacheGetManyBy (sampleContext True []) ''_id'' [''id1'', ''id2'']
                         (worldWith [(''entry:id1'', ''0''), (''entry:id2'', [])]))))
   \<and> (\<exists>ks. ''id1'' \<in> set ks
          \<and> ModelFind (if ''_id'' = ''id'' then ''_id'' else ''_id'') ks
                \<in> set (new_events (worldWith [(''entry:id1'', ''0''), (''entry:id2'', [])])
                   (snd (cacheGetManyBy (sampleContext True []) ''_id'' [''id1'', ''id2'']
                          (worldWith [(''entry:id1'', ''0''), (''entry:id2'', [])])))))
   \<and> new_events (worldWith [(''entry:id1'', ''0''), (''entry:id2'', [])])
         (snd (cacheGetManyBy (sampleContext True []) ''_id'' [''id1'', ''id2'']
                (worldWith [(''entry:id1'', ''0''), (''entry:id2'', [])])))
       = [RedisMulti [Get ''entry:id1'', Get ''entry:id2''],
          OnCacheMiss ''Entry'' ''id1'', OnCacheMiss ''Entry'' ''id2'',
          ModelFind ''_id'' [''id1'', ''id2''],
          OnDataMiss ''Entry'' ''id2'',
          RedisMulti [Set ''entry:id1'' payload1]]"
proof -
  let ?ctx = "sampleContext True []"
  let ?w = "worldWith [(''entry:id1'', ''0''), (''entry:id2'', [])]"
  have h1: "enable ?ctx" by simp
  have h2: "\<forall>k\<in>set [''id1'', ''id2'']. \<not> malformed ?ctx ?w k"
    by (simp add: malformed_def cachedString_def)
  have h2': "list_all (\<lambda>k. \<not> malformed ?ctx ?w k) [''id1'', ''id2'']"
    using h2 by (simp only: list_all_iff)
  have h3: "''id1'' \<in> set [''id1'', ''id2'']" by simp
  have h4: "cachedString ?ctx ?w ''id1'' = Some ''0''"
    by (simp add: cachedString_def)
  have p: "JSON_parse ?ctx ''0'' = Some (JNum ''0'')" by simp
  have q: "\<not> truthy (JNum ''0'')" by simp
  have n0: "''0'' \<noteq> []" by simp
  have n1: "''id1'' \<noteq> ''__proto__''" by simp
  have h5: "(''0'' \<noteq> [] \<and> (\<exists>v. JSON_parse ?ctx ''0'' = Some v \<and> \<not> truthy v) \<and> ''id1'' \<noteq> ''__proto__'')
         \<or> (''0'' = [] \<and> ''id1'' \<notin> set Object_prototype_names \<and> ''__proto__'' \<notin> set [''id1'', ''id2''])"
    using p q by simp
  have o: "onCacheMiss ?ctx" by simp
  note t = C10_falsy_cached_value_is_a_cache_miss [OF h1 h2 h3 h4 h5, of "''_id''"]
  note t3 = t [THEN conjunct1, THEN mp, OF o]
  note t4 = t [THEN conjunct2]
  have e: "new_events ?w (snd (cacheGetManyBy ?ctx ''_id'' [''id1'', ''id2''] ?w))
       = [RedisMulti [Get ''entry:id1'', Get ''entry:id2''],
          OnCacheMiss ''Entry'' ''id1'', OnCacheMiss ''Entry'' ''id2'',
          ModelFind ''_id'' [''id1'', ''id2''],
          OnDataMiss ''Entry'' ''id2'',
          RedisMulti [Set ''entry:id1'' payload1]]"
    by code_simp
  show ?thesis by (intro conjI h1 h2' h3 h4 n0 p q n1 o t3 t4 e)
qed

subsection \<open>Malformed cache payloads\<close>

text \<open>
  The empty string is not valid JSON (\<open>JSON.parse("")\<close> throws), but the guard
  \<open>if (doc)\<close> keeps it away from \<open>JSON.parse\<close>: a key whose cached string is empty
  is a cache miss, with a cache-miss event, a store query and a cache fill.
\<close>

theorem C9_counterexample:
  "cachedString (sampleContext True []) (worldWith [(''entry:id1'', [])]) ''id1'' = Some []
   \<and> JSON_parse (sampleContext True []) [] = None
   \<and> fst (cacheGetManyBy (sampleContext True []) ''_id'' [''id1''] (worldWith [(''entry:id1'', [])]))
       = Inr [JObj entry1]
   \<and> new_events (worldWith [(''entry:id1'', [])])
         (snd (cacheGetManyBy (sampleContext True []) ''_id'' [''id1''] (worldWith [(''entry:id1'', [])])))
       = [RedisMulti [Get ''entry:id1''], OnCacheMiss ''Entry'' ''id1'', ModelFind ''_id'' [''id1''],
          RedisMulti [Set ''entry:id1'' payload1]]"
  by code_simp

text \<open>
  C9 (amended). When the cached string for some key of the batch is not empty and is not
  valid serialized JSON, \<open>cacheGetManyBy\<close> propagates the parse failure to the caller:
  the call ends with the error right after the batched read, so no key is treated as a cache
  miss, no cache-miss event is emitted, the store is not consulted and the cache is left as
  it was (the bad entry is not cleared).
\<close>

theorem C9_malformed_payload_propagates:
  assumes "enable ctx"
    and "key \<in> set keys"
    and "cachedString ctx w key = Some s"
    and "s \<noteq> []"
    and "JSON_parse ctx s = None"
  shows "fst (cacheGetManyBy ctx f keys w) = Inl SyntaxError
       \<and> new_events w (snd (cacheGetManyBy ctx f keys w))
           = [RedisMulti (map (\<lambda>key. Get (withCachePrefix ctx key)) keys)]
       \<and> redis_db (snd (cacheGetManyBy ctx f keys w)) = redis_db w"
proof -
  have "malformed ctx w key"
    using assms(3,4,5) by (simp add: malformed_def)
  with assms(2) have "\<exists>k\<in>set keys. malformed ctx w k" by blast
  from cacheGetManyBy_malformed [OF assms(1) this, of f] show ?thesis
    by (simp add: new_events_def)
qed

text \<open>A cached \<open>{\<close> under \<open>entry:id1\<close>.\<close>

theorem C9_witness:
  "enable (sampleContext True [])
   \<and> ''id1'' \<in> set [''id3'', ''id1'']
   \<and> cachedString (sampleContext True []) (worldWith [(''entry:id1'', ''{'')]) ''id1'' = Some ''{''
   \<and> ''{'' \<noteq> []
   \<and> JSON_parse (sampleContext True []) ''{'' = None
   \<and> (fst (cacheGetManyBy (sampleContext True []) ''_id'' [''id3'', ''id1''] (worldWith [(''entry:id1'', ''{'')]))
         = Inl SyntaxError
       \<and> new_events (worldWith [(''entry:id1'', ''{'')])
           (snd (cacheGetManyBy (sampleContext True []) ''_id'' [''id3'', ''id1''] (worldWith [(''entry:id1'', ''{'')])))
           = [RedisMulti (map (\<lambda>key. Get (withCachePrefix (sampleContext True []) key)) [''id3'', ''id1''])]
       \<and> redis_db (snd (cacheGetManyBy (sampleContext True []) ''_id'' [''id3'', ''id1''] (worldWith [(''entry:id1'', ''{'')])))
           = redis_db (worldWith [(''entry:id1'', ''{'')]))"
proof -
  let ?ctx = "sampleContext True []"
  let ?w = "worldWith [(''entry:id1'', ''{'')]"
  have h1: "enable ?ctx" by simp
  have h2: "''id1'' \<in> set [''id3'', ''id1'']" by simp
  have h3: "cachedString ?ctx ?w ''id1'' = Some ''{''" by (simp add: cachedString_def)
  have h4: "''{'' \<noteq> []" by simp
  have h5: "JSON_parse ?ctx ''{'' = None" by simp
  note t = C9_malformed_payload_propagates [OF h1 h2 h3 h4 h5, of "''_id''"]
  show ?thesis by (intro conjI h1 h2 h3 h4 h5 t)
qed

subsection \<open>Order and length of the batched read\<close>




subsection \<open>The merge of cache hits and fetched records\<close>



subsection \<open>Alias writes of the cache fill\<close>




subsection \<open>Payloads under the keys of a record\<close>




subsection \<open>Reading twice\<close>

text \<open>
  The second call answers from the cache what the first call answered from the store, and
  the cache holds \<open>JSON.stringify(record)\<close>: the two answers are the same only when
  \<open>JSON.parse\<close> gives the record back. A record with a field whose value is
  \<open>undefined\<close> comes back without the field (and a record with an ObjectId or a date
  comes back with a string in its place), so that the two result lists differ. The two
  lists also differ when the projection of a document does not read the lookup field as the
  document does: with a projection that leaves out \<open>_id\<close>, every record is staged under
  the key \<open>undefined\<close>, the first call answers that key with the last record it
  fetched, and the second call, which fetches fewer records, with another one.
\<close>

theorem C5_counterexample:
  "fst (cacheGetManyBy (reorder_documents (sampleContext True []) [entry7]) ''_id'' [''id7''] emptyWorld)
     = Inr [JObj entry7]
   \<and> fst (cacheGetManyBy (reorder_documents (sampleContext True []) [entry7]) ''_id'' [''id7'']
            (snd (cacheGetManyBy (reorder_documents (sampleContext True []) [entry7]) ''_id'' [''id7'']
                    emptyWorld)))
     = Inr [JObj parsed7]
   \<and> JObj entry7 \<noteq> JObj parsed7
   \<and> fst (cacheGetManyBy projectingContext ''_id'' [''a'', ''undefined''] emptyWorld)
     = Inr [JNull, JObj titleU]
   \<and> fst (cacheGetManyBy projectingContext ''_id'' [''a'', ''undefined'']
            (snd (cacheGetManyBy projectingContext ''_id'' [''a'', ''undefined''] emptyWorld)))
     = Inr [JNull, JObj titleA]
   \<and> JObj titleU \<noteq> JObj titleA"
proof (intro conjI)
  show "fst (cacheGetManyBy (reorder_documents (sampleContext True []) [entry7]) ''_id'' [''id7''] emptyWorld)
     = Inr [JObj entry7]"
    by code_simp
  show "fst (cacheGetManyBy (reorder_documents (sampleContext True []) [entry7]) ''_id'' [''id7'']
            (snd (cacheGetManyBy (reorder_documents (sampleContext True []) [entry7]) ''_id'' [''id7'']
                    emptyWorld)))
     = Inr [JObj parsed7]"
    by code_simp
  show "JObj entry7 \<noteq> JObj parsed7"
    by (simp add: entry7_def parsed7_def)
  show "fst (cacheGetManyBy projectingContext ''_id'' [''a'', ''undefined''] emptyWorld)
     = Inr [JNull, JObj titleU]"
    by code_simp
  show "fst (cacheGetManyBy projectingContext ''_id'' [''a'', ''undefined'']
            (snd (cacheGetManyBy projectingContext ''_id'' [''a'', ''undefined''] emptyWorld)))
     = Inr [JNull, JObj titleA]"
    by code_simp
  show "JObj titleU \<noteq> JObj titleA"
    by (simp add: titleU_def titleA_def)
qed

text \<open>
  C5 (amended). With caching enabled, no write in between and a key list none of whose keys
  names a member of \<open>Object.prototype\<close>, calling \<open>cacheGetManyBy\<close> twice with the
  same field and key list yields identical results (the same list, or the same parse
  failure), and the second call emits no data-miss event for any key that the first call
  filled into the cache; the second call also leaves the cache as the first one left it.
  This holds when \<open>JSON.parse\<close> gives back what \<open>JSON.stringify\<close> was given for the
  projections of the stored documents, and the projection of a document reads the lookup
  field as the document itself does.
\<close>

theorem C5_repeated_read_is_idempotent:
  assumes en: "enable ctx"
    and kk: "\<forall>k\<in>set keys. k \<notin> set Object_prototype_names"
    and rt: "\<forall>d\<in>set (documents (model ctx)).
            JSON_stringify ctx (JObj (toObject (model ctx) d)) \<noteq> []
            \<and> JSON_parse ctx (JSON_stringify ctx (JObj (toObject (model ctx) d)))
                = Some (JObj (toObject (model ctx) d))"
    and pk: "\<forall>d\<in>set (documents (model ctx)).
            js_toString (js_get (JObj (toObject (model ctx) d)) f) = js_toString (getProp (model ctx) d f)"
  shows "fst (cacheGetManyBy ctx f keys (snd (cacheGetManyBy ctx f keys w)))
           = fst (cacheGetManyBy ctx f keys w)
       \<and> (\<forall>k. map_of (storedKeyValue_of ctx f (missedKeys ctx w keys)) k \<noteq> None \<longrightarrow>
             OnDataMiss (modelName (model ctx)) k
               \<notin> set (new_events (snd (cacheGetManyBy ctx f keys w))
                        (snd (cacheGetManyBy ctx f keys (snd (cacheGetManyBy ctx f keys w))))))
       \<and> redis_db (snd (cacheGetManyBy ctx f keys (snd (cacheGetManyBy ctx f keys w))))
           = redis_db (snd (cacheGetManyBy ctx f keys w))"
proof (cases "\<exists>k\<in>set keys. malformed ctx w k")
  case True
  let ?w1 = "w\<lparr>log := log w @ [RedisMulti (map (\<lambda>key. Get (withCachePrefix ctx key)) keys)]\<rparr>"
  have c1: "cacheGetManyBy ctx f keys w = (Inl SyntaxError, ?w1)"
    using en True by (rule cacheGetManyBy_malformed)
  have "malformed ctx ?w1 = malformed ctx w"
    by (simp add: malformed_def cachedString_def fun_eq_iff)
  with True have "\<exists>k\<in>set keys. malformed ctx ?w1 k" by simp
  from cacheGetManyBy_malformed [OF en this, of f]
  show ?thesis
    unfolding c1 by (simp add: new_events_def)
next
  case False
  then have ok: "\<forall>k\<in>set keys. \<not> malformed ctx w k" by simp
  let ?w1 = "snd (cacheGetManyBy ctx f keys w)"
  let ?M1 = "missedKeys ctx w keys"
  let ?S = "storedKeyValue_of ctx f ?M1"
  let ?M2 = "missedKeys ctx ?w1 keys"
  have ok1: "\<forall>k\<in>set keys. \<not> malformed ctx ?w1 k"
    using ok unfolding cacheHit_after_fill(2) [OF en ok kk rt] by (simp split: option.splits)
  have M2: "?M2 = filter (\<lambda>k. map_of ?S k = None) ?M1"
    using en ok kk rt by (rule missedKeys_after_fill)
  have sub: "set ?M2 \<subseteq> set ?M1" unfolding M2 by auto
  have un: "\<forall>k\<in>set ?M2. map_of ?S k = None" unfolding M2 by simp
  have nl: "\<forall>k\<in>set ?M2. map_of (valueByKey_of ctx f ?M2) k = None"
  proof
    fix k assume k: "k \<in> set ?M2"
    with kk have "k \<noteq> ''__proto__''" by (auto simp: missedKeys_def)
    with pk sub un k show "map_of (valueByKey_of ctx f ?M2) k = None"
      by (rule nothing_left_to_fetch)
  qed
  have S2: "storedKeyValue_of ctx f ?M2 = []"
    using nl by (rule storedKeyValue_of_all_null)
  have fb: "fill_batch ctx f ?w1 keys = []"
    by (simp add: fill_batch_def S2 Object_entries_def set_batch_def)
  have resp: "response_for ctx f ?w1 keys k = response_for ctx f w keys k" for k
    by (simp add: response_for_def S2 cacheHit_after_fill(1) [OF en ok kk rt] split: option.splits)
  have one: "fst (cacheGetManyBy ctx f keys ?w1) = fst (cacheGetManyBy ctx f keys w)"
    by (simp add: cacheGetManyBy_enabled(1) [OF en ok1 kk] cacheGetManyBy_enabled(1) [OF en ok kk] resp)
  have two: "\<forall>k. map_of ?S k \<noteq> None \<longrightarrow>
             OnDataMiss (modelName (model ctx)) k
               \<notin> set (new_events ?w1 (snd (cacheGetManyBy ctx f keys ?w1)))"
  proof (intro allI impI)
    fix k assume "map_of ?S k \<noteq> None"
    with un have "k \<notin> set ?M2" by auto
    then show "OnDataMiss (modelName (model ctx)) k
               \<notin> set (new_events ?w1 (snd (cacheGetManyBy ctx f keys ?w1)))"
      unfolding new_events_append [OF cacheGetManyBy_enabled(3) [OF en ok1 kk, of f]] fb
      by auto
  qed
  have three: "redis_db (snd (cacheGetManyBy ctx f keys ?w1)) = redis_db ?w1"
    by (simp add: cacheGetManyBy_enabled(2) [OF en ok1 kk] fb)
  show ?thesis by (rule conjI [OF one conjI [OF two three]])
qed

text \<open>The keys \<open>id3\<close>, \<open>id2\<close>, \<open>id1\<close>, with \<open>id1\<close> cached and \<open>id2\<close> absent from the store.\<close>

theorem C5_witness:
  "enable (sampleContext True [''slug''])
   \<and> list_all (\<lambda>k. k \<notin> set Object_prototype_names) [''id3'', ''id2'', ''id1'']
   \<and> list_all (\<lambda>d. JSON_stringify (sampleContext True [''slug'']) (JObj (toObject (model (sampleContext True [''slug''])) d)) \<noteq> []
         \<and> JSON_parse (sampleContext True [''slug''])
              (JSON_stringify (sampleContext True [''slug'']) (JObj (toObject (model (sampleContext True [''slug''])) d)))
             = Some (JObj (toObject (model (sampleContext True [''slug''])) d)))
        (documents (model (sampleContext True [''slug''])))
   \<and> list_all (\<lambda>d. js_toString (js_get (JObj (toObject (model (sampleContext True [''slug''])) d)) ''_id'')
           = js_toString (getProp (model (sampleContext True [''slug''])) d ''_id''))
        (documents (model (sampleContext True [''slug''])))
   \<and> fst (cacheGetManyBy (sampleContext True [''slug'']) ''_id'' [''id3'', ''id2'', ''id1'']
             (snd (cacheGetManyBy (sampleContext True [''slug'']) ''_id'' [''id3'', ''id2'', ''id1'']
                     (worldWith [(''entry:id1'', payload1)]))))
         = fst (cacheGetManyBy (sampleContext True [''slug'']) ''_id'' [''id3'', ''id2'', ''id1'']
                 (worldWith [(''entry:id1'', payload1)]))
   \<and> map_of (storedKeyValue_of (sampleContext True [''slug'']) ''_id''
                (missedKeys (sampleContext True [''slug'']) (worldWith [(''entry:id1'', payload1)])
                   [''id3'', ''id2'', ''id1''])) ''id3'' \<noteq> None
   \<and> OnDataMiss (modelName (model (sampleContext True [''slug'']))) ''id3''
         \<notin> set (new_events
                  (snd (cacheGetManyBy (sampleContext True [''slug'']) ''_id'' [''id3'', ''id2'', ''id1'']
                          (worldWith [(''entry:id1'', payload1)])))
                  (snd (cacheGetManyBy (sampleContext True [''slug'']) ''_id'' [''id3'', ''id2'', ''id1'']
                          (snd (cacheGetManyBy (sampleContext True [''slug'']) ''_id'' [''id3'', ''id2'', ''id1'']
                                  (worldWith [(''entry:id1'', payload1)]))))))
   \<and> redis_db (snd (cacheGetManyBy (sampleContext True [''slug'']) ''_id'' [''id3'', ''id2'', ''id1'']
                      (snd (cacheGetManyBy (sampleContext True [''slug'']) ''_id'' [''id3'', ''id2'', ''id1'']
                              (worldWith [(''entry:id1'', payload1)])))))
       = redis_db (snd (cacheGetManyBy (sampleContext True [''slug'']) ''_id'' [''id3'', ''id2'', ''id1'']
                          (worldWith [(''entry:id1'', payload1)])))
   \<and> fst (cacheGetManyBy (sampleContext True [''slug'']) ''_id'' [''id3'', ''id2'', ''id1'']
            (worldWith [(''entry:id1'', payload1)]))
       = Inr [JObj entry3, JNull, JObj entry1]
   \<and> new_events (worldWith [(''entry:id1'', payload1)])
         (snd (cacheGetManyBy (sampleContext True [''slug'']) ''_id'' [''id3'', ''id2'', ''id1'']
                 (worldWith [(''entry:id1'', payload1)])))
       = [RedisMulti [Get ''entry:id3'', Get ''entry:id2'', Get ''entry:id1''],
          OnCacheMiss ''Entry'' ''id3'', OnCacheMiss ''Entry'' ''id2'',
          ModelFind ''_id'' [''id3'', ''id2''],
          OnDataMiss ''Entry'' ''id2'',
          RedisMulti [Set ''entry:id3'' payload3, Set ''entry:slug3'' payload3]]
   \<and> new_events
         (snd (cacheGetManyBy (sampleContext True [''slug'']) ''_id'' [''id3'', ''id2'', ''id1'']
                 (worldWith [(''entry:id1'', payload1)])))
         (snd (cacheGetManyBy (sampleContext True [''slug'']) ''_id'' [''id3'', ''id2'', ''id1'']
                 (snd (cacheGetManyBy (sampleContext True [''slug'']) ''_id'' [''id3'', ''id2'', ''id1'']
                         (worldWith [(''entry:id1'', payload1)])))))
       = [RedisMulti [Get ''entry:id3'', Get ''entry:id2'', Get ''entry:id1''],
          OnCacheMiss ''Entry'' ''id2'',
          ModelFind ''_id'' [''id2''],
          OnDataMiss ''Entry'' ''id2'']"
proof -
  let ?ctx = "sampleContext True [''slug'']"
  let ?keys = "[''id3'', ''id2'', ''id1'']"
  let ?w = "worldWith [(''entry:id1'', payload1)]"
  have h1: "enable ?ctx" by simp
  have h2: "\<forall>d\<in>set (documents (model ?ctx)).
         JSON_stringify ?ctx (JObj (toObject (model ?ctx) d)) \<noteq> []
         \<and> JSON_parse ?ctx (JSON_stringify ?ctx (JObj (toObject (model ?ctx) d)))
             = Some (JObj (toObject (model ?ctx) d))"
    by simp
  have h3: "\<forall>d\<in>set (documents (model ?ctx)).
         js_toString (js_get (JObj (toObject (model ?ctx) d)) ''_id'')
           = js_toString (getProp (model ?ctx) d ''_id'')"
    by simp
  note h2' = h2 [folded list_all_iff]
  note h3' = h3 [folded list_all_iff]
  have k: "\<forall>k\<in>set ?keys. k \<notin> set Object_prototype_names" by simp
  have k': "list_all (\<lambda>k. k \<notin> set Object_prototype_names) ?keys"
    using k by (simp only: list_all_iff)
  note t = C5_repeated_read_is_idempotent [OF h1 k h2 h3, of ?w]
  have s: "map_of (storedKeyValue_of ?ctx ''_id'' (missedKeys ?ctx ?w ?keys)) ''id3'' \<noteq> None"
    by code_simp
  note t1 = t [THEN conjunct1]
  note t2 = t [THEN conjunct2, THEN conjunct1, rule_format, OF s]
  note t3 = t [THEN conjunct2, THEN conjunct2]
  have e1: "fst (cacheGetManyBy ?ctx ''_id'' ?keys ?w) = Inr [JObj entry3, JNull, JObj entry1]"
    by code_simp
  have e2: "new_events ?w (snd (cacheGetManyBy ?ctx ''_id'' ?keys ?w))
       = [RedisMulti [Get ''entry:id3'', Get ''entry:id2'', Get ''entry:id1''],
          OnCacheMiss ''Entry'' ''id3'', OnCacheMiss ''Entry'' ''id2'',
          ModelFind ''_id'' [''id3'', ''id2''],
          OnDataMiss ''Entry'' ''id2'',
          RedisMulti [Set ''entry:id3'' payload3, Set ''entry:slug3'' payload3]]"
    by code_simp
  have e3: "new_events (snd (cacheGetManyBy ?ctx ''_id'' ?keys ?w))
         (snd (cacheGetManyBy ?ctx ''_id'' ?keys (snd (cacheGetManyBy ?ctx ''_id'' ?keys ?w))))
       = [RedisMulti [Get ''entry:id3'', Get ''entry:id2'', Get ''entry:id1''],
          OnCacheMiss ''Entry'' ''id2'',
          ModelFind ''_id'' [''id2''],
          OnDataMiss ''Entry'' ''id2'']"
    by code_simp
  show ?thesis by (intro conjI h1 k' h2' h3' t1 s t2 t3 e1 e2 e3)
qed

end
